theory Spec2Isabelle
  imports Main "HOL-Library.AList" "HOL-Library.Sublist"
begin

section \<open>Exceptions and message formatting\<close>

text \<open>
  The outcomes of a call that does not return normally. The first two are the exception
  classes of \<^verbatim>\<open>lwtnn/Exceptions.hh\<close>, with their message. \<open>std_out_of_range\<close> is what
  \<^verbatim>\<open>std::map::at\<close> throws for a missing key. \<open>assertion_failed\<close> is a failed
  \<^verbatim>\<open>assert\<close>, which ends the program: the assertions are modelled as compiled in (no
  \<^verbatim>\<open>NDEBUG\<close>), and the bounds check of Eigen's \<^verbatim>\<open>segment\<close> is an assertion too.
  \<open>undefined_behaviour\<close> stands for what C++ leaves undefined: following a pointer that
  does not refer to a live object allocated earlier, or returning vector elements that
  were never written.
\<close>

datatype exn =
    NNConfigurationException string
  | NNEvaluationException string
  | std_out_of_range
  | assertion_failed
  | undefined_behaviour

definition digit_char :: "nat \<Rightarrow> char" where
  "digit_char d = ''0123456789'' ! d"

text \<open>\<^verbatim>\<open>std::to_string\<close> on an unsigned value: its decimal digits.\<close>

fun to_string :: "nat \<Rightarrow> string" where
  "to_string n =
     (if n < 10 then [digit_char n] else to_string (n div 10) @ [digit_char (n mod 10)])"

declare to_string.simps [simp del]

text \<open>The conversion of an \<^verbatim>\<open>int\<close> argument to a \<^verbatim>\<open>size_t\<close> parameter (64 bits).\<close>

definition size_t_of_int :: "int \<Rightarrow> nat" where
  "size_t_of_int i = nat (i mod 2 ^ 64)"

text \<open>\<^verbatim>\<open>throw_cfg(msg, index)\<close>: the exception it throws.\<close>

definition throw_cfg :: "string \<Rightarrow> nat \<Rightarrow> exn" where
  "throw_cfg msg i = NNConfigurationException (msg @ '' '' @ to_string i)"

section \<open>Configuration records\<close>

text \<open>
  Modelled from the spec: the enum \<^verbatim>\<open>NodeConfig::Type\<close> and the struct
  \<^verbatim>\<open>NodeConfig\<close> are declared in a header that is not among the sources. The code names
  the enumerators \<open>INPUT\<close>, \<open>FEED_FORWARD\<close> and \<open>CONCATENATE\<close> and has a branch for any
  other value, which \<open>OTHER\<close> stands for; the fields are \<open>type\<close>, \<open>sources\<close> (a vector of
  \<^verbatim>\<open>size_t\<close>) and \<open>index\<close> (a signed \<^verbatim>\<open>int\<close>, compared with 0 in the code).
  \<^verbatim>\<open>LayerConfig\<close> is opaque to this code: it is a type parameter \<open>'l\<close>.
\<close>

datatype Type = INPUT | FEED_FORWARD | CONCATENATE | OTHER

record NodeConfig =
  type :: Type
  sources :: "nat list"
  index :: int

section \<open>The Stack collaborator\<close>

text \<open>
  Modelled from the spec: the class \<^verbatim>\<open>Stack\<close> (\<^verbatim>\<open>lwtnn/Stack.hh\<close>) is not among the
  sources. The code uses its constructor \<^verbatim>\<open>Stack(n_inputs, layers)\<close>, which may throw a
  configuration exception, \<^verbatim>\<open>n_outputs()\<close> and \<^verbatim>\<open>compute(vector)\<close>. They are taken
  as parameters, over an arbitrary type \<open>'s\<close> of Stack objects and an arbitrary type \<open>'a\<close>
  of vector elements.
\<close>

record ('l, 's, 'a) Stack_ops =
  Stack_new :: "nat \<Rightarrow> 'l list \<Rightarrow> exn + 's"
  Stack_n_outputs :: "'s \<Rightarrow> nat"
  Stack_compute :: "'s \<Rightarrow> 'a list \<Rightarrow> exn + 'a list"

text \<open>
  The contract the spec gives for a Stack: \<open>compute\<close> returns a vector of the declared
  width.
\<close>

definition Stack_contract :: "('l, 's, 'a) Stack_ops \<Rightarrow> bool" where
  "Stack_contract ops \<longleftrightarrow>
     (\<forall>s v w. Stack_compute ops s v = Inr w \<longrightarrow> length w = Stack_n_outputs ops s)"

section \<open>Sources\<close>

text \<open>
  \<^verbatim>\<open>ISource::at(index)\<close>: a vector (\<^verbatim>\<open>VectorXd\<close>, here a list of elements) or an
  exception.
\<close>

type_synonym 'a ISource = "nat \<Rightarrow> exn + 'a list"

definition VectorSource_at :: "'a list list \<Rightarrow> 'a ISource" where
  "VectorSource_at m_inputs i =
     (if i \<ge> length m_inputs
      then Inl (NNEvaluationException
                  (''VectorSource: no source vector defined at '' @ to_string i))
      else Inr (m_inputs ! i))"

definition DummySource_at :: "nat list \<Rightarrow> ('a :: semiring_1) ISource" where
  "DummySource_at m_sizes i =
     (if i \<ge> length m_sizes
      then Inl (NNEvaluationException
                  (''Dummy Source: no size defined at '' @ to_string i))
      else Inr (map of_nat [0..<m_sizes ! i]))"

section \<open>Nodes and the Graph\<close>

text \<open>
  The Graph owns its nodes and stacks through the vectors \<open>m_nodes\<close> and \<open>m_stacks\<close> of
  raw pointers. Every object made with \<^verbatim>\<open>new\<close> is pushed on its vector at once and
  nothing is removed before the destructor, so an object is identified by its position
  there: a pointer \<^verbatim>\<open>INode*\<close> is the position of the node in \<open>m_nodes\<close>, a pointer
  \<^verbatim>\<open>Stack*\<close> the position of the stack in \<open>m_stacks\<close>, and the vectors are the store.
  Two pointers are the same object exactly when they are the same position.

  \<open>InputNode m_index m_n_outputs\<close>, \<open>FeedForwardNode m_stack m_source\<close> and
  \<open>ConcatenateNode m_sources m_n_outputs\<close> hold the members of the three classes.
  \<^verbatim>\<open>size_t\<close> values are natural numbers; the one sum the code takes of them, in the
  constructor of ConcatenateNode, is reduced modulo \<open>2 ^ 64\<close> there.
\<close>

datatype INode =
    InputNode nat nat
  | FeedForwardNode nat nat
  | ConcatenateNode "nat list" nat

record 's Graph =
  m_nodes :: "INode list"
  m_stacks :: "'s list"

text \<open>\<^verbatim>\<open>node->n_outputs()\<close> for the object \<open>node\<close>.\<close>

fun n_outputs :: "('l, 's, 'a) Stack_ops \<Rightarrow> 's list \<Rightarrow> INode \<Rightarrow> nat" where
  "n_outputs ops stacks (InputNode m_index m_n_outputs) = m_n_outputs"
| "n_outputs ops stacks (FeedForwardNode m_stack m_source) =
     Stack_n_outputs ops (stacks ! m_stack)"
| "n_outputs ops stacks (ConcatenateNode m_sources m_n_outputs) = m_n_outputs"

text \<open>\<^verbatim>\<open>InputNode::compute\<close>.\<close>

definition InputNode_compute :: "nat \<Rightarrow> nat \<Rightarrow> 'a ISource \<Rightarrow> exn + 'a list" where
  "InputNode_compute m_index m_n_outputs source =
     (case source m_index of
        Inl e \<Rightarrow> Inl e
      | Inr output \<Rightarrow>
          if \<not> length output > 0 then Inl assertion_failed
          else if length output \<noteq> m_n_outputs
          then Inl (NNEvaluationException
                      (''Found vector of length '' @ to_string (length output)
                        @ '', expected '' @ to_string m_n_outputs))
          else Inr output)"

text \<open>
  \<^verbatim>\<open>output.segment(offset, n_elements) = input\<close> on a buffer whose elements are
  \<open>None\<close> until written.
\<close>

definition write_segment :: "'a option list \<Rightarrow> nat \<Rightarrow> 'a list \<Rightarrow> 'a option list" where
  "write_segment output offset input =
     take offset output @ map Some input @ drop (offset + length input) output"

text \<open>
  \<open>compute\<close> is \<^verbatim>\<open>node->compute(source)\<close> for the pointer \<open>node\<close>, dispatching on the
  class of the object; \<open>ConcatenateNode_loop\<close> is the loop of
  \<^verbatim>\<open>ConcatenateNode::compute\<close> over the remaining \<open>m_sources\<close>, for the node at \<open>this\<close>.
  A node only holds pointers it was given at its construction, to objects that existed
  then; the recursion follows a pointer only to an earlier position and gives
  \<open>undefined_behaviour\<close> otherwise.
  The last assertion of \<^verbatim>\<open>ConcatenateNode::compute\<close> is written
  \<^verbatim>\<open>assert(offset = m_n_outputs)\<close>: it assigns, and fails exactly when \<open>m_n_outputs\<close>
  is 0.
\<close>

function compute ::
    "('l, 's, 'a) Stack_ops \<Rightarrow> ('s, 'z) Graph_scheme \<Rightarrow> 'a ISource \<Rightarrow> nat \<Rightarrow> exn + 'a list"
  and ConcatenateNode_loop ::
    "('l, 's, 'a) Stack_ops \<Rightarrow> ('s, 'z) Graph_scheme \<Rightarrow> 'a ISource \<Rightarrow> nat \<Rightarrow> nat list
       \<Rightarrow> nat \<Rightarrow> 'a option list \<Rightarrow> exn + (nat \<times> 'a option list)"
where
  "compute ops g source node =
     (if node \<ge> length (m_nodes g) then Inl undefined_behaviour
      else case m_nodes g ! node of
        InputNode m_index m_n_outputs \<Rightarrow> InputNode_compute m_index m_n_outputs source
      | FeedForwardNode m_stack m_source \<Rightarrow>
          if \<not> m_source < node then Inl undefined_behaviour
          else (case compute ops g source m_source of
                  Inl e \<Rightarrow> Inl e
                | Inr v \<Rightarrow>
                    if m_stack \<ge> length (m_stacks g) then Inl undefined_behaviour
                    else Stack_compute ops (m_stacks g ! m_stack) v)
      | ConcatenateNode m_sources m_n_outputs \<Rightarrow>
          (case ConcatenateNode_loop ops g source node m_sources 0
                  (replicate m_n_outputs None) of
             Inl e \<Rightarrow> Inl e
           | Inr (offset, output) \<Rightarrow>
               if m_n_outputs = 0 then Inl assertion_failed
               else if None \<in> set output then Inl undefined_behaviour
               else Inr (map the output)))"
| "ConcatenateNode_loop ops g source this [] offset output = Inr (offset, output)"
| "ConcatenateNode_loop ops g source this (node # rest) offset output =
     (if \<not> node < this then Inl undefined_behaviour
      else case compute ops g source node of
        Inl e \<Rightarrow> Inl e
      | Inr input \<Rightarrow>
          let n_elements = length input in
          if n_elements \<noteq> n_outputs ops (m_stacks g) (m_nodes g ! node)
          then Inl assertion_failed
          else if \<not> offset + n_elements \<le> length output then Inl assertion_failed
          else ConcatenateNode_loop ops g source this rest (offset + n_elements)
                 (write_segment output offset input))"
  by pat_completeness auto
termination
  by (relation "inv_image (less_than <*lex*> less_than <*lex*> less_than)
       (\<lambda>x. case x of
          Inl (ops, g, source, node) \<Rightarrow> (node, 1 :: nat, 0 :: nat)
        | Inr (ops, g, source, this, rest, offset, output) \<Rightarrow> (this, 0, length rest))")
     auto

declare compute.simps [simp del]

text \<open>\<^verbatim>\<open>Graph::compute(source, node_number)\<close>.\<close>

definition Graph_compute ::
    "('l, 's, 'a) Stack_ops \<Rightarrow> ('s, 'z) Graph_scheme \<Rightarrow> 'a ISource \<Rightarrow> nat \<Rightarrow> exn + 'a list"
where
  "Graph_compute ops g source node_number =
     (if node_number \<ge> length (m_nodes g)
      then Inl (NNEvaluationException (''Graph: no node at '' @ to_string node_number))
      else compute ops g source node_number)"

text \<open>\<^verbatim>\<open>Graph::compute(source)\<close>, which evaluates \<^verbatim>\<open>m_nodes.back()\<close>.\<close>

definition Graph_compute_back ::
    "('l, 's, 'a) Stack_ops \<Rightarrow> ('s, 'z) Graph_scheme \<Rightarrow> 'a ISource \<Rightarrow> exn + 'a list"
where
  "Graph_compute_back ops g source =
     (if \<not> length (m_nodes g) > 0 then Inl assertion_failed
      else compute ops g source (length (m_nodes g) - 1))"

section \<open>Construction\<close>

text \<open>
  The state the constructor \<^verbatim>\<open>Graph::Graph(nodes, layers)\<close> passes by reference to
  \<^verbatim>\<open>build_node\<close>: the two members of the Graph and the two local maps. A
  \<^verbatim>\<open>std::map\<close> is an association list with distinct keys, changed by \<open>AList.update\<close>
  only; \<^verbatim>\<open>count\<close> and \<^verbatim>\<open>at\<close> are \<open>map_of\<close>, and \<^verbatim>\<open>size\<close> is \<open>length\<close>.
  A call that throws gives \<open>Inl\<close> of the exception and of the state reached when
  it was thrown.
\<close>

record 's Build = "'s Graph" +
  node_map :: "(nat \<times> nat) list"
  stack_map :: "(nat \<times> nat) list"

type_synonym 's outcome = "(exn \<times> 's Build) + 's Build"

text \<open>\<^verbatim>\<open>m_nodes.push_back(node); node_map[iii] = m_nodes.back()\<close>.\<close>

definition push_node :: "nat \<Rightarrow> INode \<Rightarrow> 's Build \<Rightarrow> 's Build" where
  "push_node iii node st =
     st\<lparr>m_nodes := m_nodes st @ [node],
        node_map := AList.update iii (length (m_nodes st)) (node_map st)\<rparr>"

text \<open>
  \<^verbatim>\<open>get_feedforward_node\<close>: the new FeedForwardNode object, and the state with the
  Stack it may have added.
\<close>

definition get_feedforward_node ::
    "('l, 's, 'a) Stack_ops \<Rightarrow> NodeConfig \<Rightarrow> 'l list \<Rightarrow> 's Build
       \<Rightarrow> (exn \<times> 's Build) + (INode \<times> 's Build)"
where
  "get_feedforward_node ops node layers st =
     (let n_source = length (sources node) in
      if n_source \<noteq> 1 then Inl (throw_cfg ''need one source, found'' n_source, st)
      else case map_of (node_map st) (sources node ! 0) of
        None \<Rightarrow> Inl (std_out_of_range, st)
      | Some source \<Rightarrow>
          let layer_n = index node in
          if layer_n < 0
          then Inl (throw_cfg ''negative layer number'' (size_t_of_int layer_n), st)
          else if nat layer_n \<ge> length layers
          then Inl (throw_cfg ''no layer number'' (size_t_of_int layer_n), st)
          else
            case (if map_of (stack_map st) (nat layer_n) = None
                  then (case Stack_new ops (n_outputs ops (m_stacks st) (m_nodes st ! source))
                               [layers ! nat layer_n] of
                          Inl e \<Rightarrow> Inl (e, st)
                        | Inr stack \<Rightarrow>
                            Inr (st\<lparr>m_stacks := m_stacks st @ [stack],
                                    stack_map := AList.update (nat layer_n)
                                      (length (m_stacks st)) (stack_map st)\<rparr>))
                  else Inr st) of
              Inl x \<Rightarrow> Inl x
            | Inr st' \<Rightarrow>
                (case map_of (stack_map st') (nat layer_n) of
                   None \<Rightarrow> Inl (std_out_of_range, st')
                 | Some stack \<Rightarrow> Inr (FeedForwardNode stack source, st')))"

text \<open>The loop that fills \<open>in_nodes\<close> with \<^verbatim>\<open>node_map.at(source_node)\<close>.\<close>

primrec in_nodes :: "(nat \<times> nat) list \<Rightarrow> nat list \<Rightarrow> nat list option" where
  "in_nodes nm [] = Some []"
| "in_nodes nm (source_node # rest) =
     (case map_of nm source_node of
        None \<Rightarrow> None
      | Some p \<Rightarrow> map_option ((#) p) (in_nodes nm rest))"

text \<open>
  The constructor of ConcatenateNode, which adds up the widths of its sources in the
  \<^verbatim>\<open>size_t\<close> member \<open>m_n_outputs\<close>: the additions wrap at \<open>2 ^ 64\<close>, and so the member is
  the sum modulo \<open>2 ^ 64\<close>.
\<close>

definition ConcatenateNode_new ::
    "('l, 's, 'a) Stack_ops \<Rightarrow> ('s, 'z) Graph_scheme \<Rightarrow> nat list \<Rightarrow> INode" where
  "ConcatenateNode_new ops g srcs =
     ConcatenateNode srcs
       (sum_list (map (\<lambda>source. n_outputs ops (m_stacks g) (m_nodes g ! source)) srcs)
          mod 2 ^ 64)"

text \<open>
  \<^verbatim>\<open>build_node\<close>, and the loop in it that builds \<^verbatim>\<open>node.sources\<close> with the extended
  copy of \<open>cycle_check\<close>.
\<close>

function build_node ::
    "('l, 's, 'a) Stack_ops \<Rightarrow> nat \<Rightarrow> NodeConfig list \<Rightarrow> 'l list \<Rightarrow> 's Build \<Rightarrow> nat set
       \<Rightarrow> 's outcome"
  and build_sources ::
    "('l, 's, 'a) Stack_ops \<Rightarrow> nat list \<Rightarrow> NodeConfig list \<Rightarrow> 'l list \<Rightarrow> 's Build \<Rightarrow> nat set
       \<Rightarrow> 's outcome"
where
  "build_node ops iii nodes layers st cycle_check =
     (if map_of (node_map st) iii \<noteq> None then Inr st
      else if iii \<ge> length nodes then Inl (throw_cfg ''no node index'' iii, st)
      else
        let node = nodes ! iii in
        if type node = INPUT then
          (let n_inputs = length (sources node) in
           if n_inputs \<noteq> 1
           then Inl (throw_cfg ''input node needs need one source, got'' n_inputs, st)
           else if index node < 0
           then Inl (throw_cfg ''input node needs positive index, got''
                       (size_t_of_int (index node)), st)
           else Inr (push_node iii (InputNode (sources node ! 0) (nat (index node))) st))
        else if iii \<in> cycle_check
        then Inl (NNConfigurationException ''found cycle in graph'', st)
        else
          case build_sources ops (sources node) nodes layers st (insert iii cycle_check) of
            Inl x \<Rightarrow> Inl x
          | Inr st1 \<Rightarrow>
              if type node = FEED_FORWARD then
                (case get_feedforward_node ops node layers st1 of
                   Inl x \<Rightarrow> Inl x
                 | Inr (ff, st2) \<Rightarrow> Inr (push_node iii ff st2))
              else if type node = CONCATENATE then
                (case in_nodes (node_map st1) (sources node) of
                   None \<Rightarrow> Inl (std_out_of_range, st1)
                 | Some ins \<Rightarrow> Inr (push_node iii (ConcatenateNode_new ops st1 ins) st1))
              else Inl (NNConfigurationException ''unknown node type'', st1))"
| "build_sources ops [] nodes layers st cycle_check = Inr st"
| "build_sources ops (source_node # rest) nodes layers st cycle_check =
     (case build_node ops source_node nodes layers st cycle_check of
        Inl x \<Rightarrow> Inl x
      | Inr st' \<Rightarrow> build_sources ops rest nodes layers st' cycle_check)"
  by pat_completeness auto
termination
  apply (relation "inv_image (less_than <*lex*> less_than)
       (\<lambda>x. case x of
          Inl (ops, iii, nodes, layers, st, cycle_check) \<Rightarrow>
            (card ({..<length nodes} - cycle_check), 0 :: nat)
        | Inr (ops, srcs, nodes, layers, st, cycle_check) \<Rightarrow>
            (card ({..<length nodes} - cycle_check), Suc (length srcs)))")
   apply auto
  subgoal premises prems for iii nodes st cycle_check
  proof -
    have "iii \<in> {..<length nodes} - cycle_check"
      using prems by simp
    then have "card ({..<length nodes} - cycle_check) \<noteq> 0"
      by (metis card_eq_0_iff empty_iff finite_Diff finite_lessThan)
    then show ?thesis by arith
  qed
  done

declare build_node.simps [simp del]

text \<open>
  The constructor \<^verbatim>\<open>Graph::Graph(nodes, layers)\<close>: its loop over the positions of
  \<open>nodes\<close>, each built with an empty \<open>cycle_check\<close>, and its final assertion. The result
  is the Graph (\<open>m_nodes\<close> and \<open>m_stacks\<close>) together with the two maps as they are when the
  constructor ends.
\<close>

primrec Graph_loop ::
    "('l, 's, 'a) Stack_ops \<Rightarrow> nat list \<Rightarrow> NodeConfig list \<Rightarrow> 'l list \<Rightarrow> 's Build
       \<Rightarrow> 's outcome"
where
  "Graph_loop ops [] nodes layers st = Inr st"
| "Graph_loop ops (iii # rest) nodes layers st =
     (case build_node ops iii nodes layers st {} of
        Inl x \<Rightarrow> Inl x
      | Inr st' \<Rightarrow> Graph_loop ops rest nodes layers st')"

definition empty_Build :: "'s Build" where
  "empty_Build = \<lparr>m_nodes = [], m_stacks = [], node_map = [], stack_map = []\<rparr>"

definition Graph_ctor ::
    "('l, 's, 'a) Stack_ops \<Rightarrow> NodeConfig list \<Rightarrow> 'l list \<Rightarrow> 's outcome" where
  "Graph_ctor ops nodes layers =
     (case Graph_loop ops [0..<length nodes] nodes layers empty_Build of
        Inl x \<Rightarrow> Inl x
      | Inr st \<Rightarrow>
          if length (node_map st) \<noteq> length nodes then Inl (assertion_failed, st)
          else Inr st)"

text \<open>
  Both overloads of \<^verbatim>\<open>Graph::compute\<close> are \<^verbatim>\<open>const\<close> member functions that write to
  no member: whether a call returns or throws, the Graph after it is the Graph before
  it. \<open>Graph_calls\<close> is a sequence of indexed calls on one Graph, each made on the Graph
  the call before it left.
\<close>

definition Graph_compute_call ::
    "('l, 's, 'a) Stack_ops \<Rightarrow> ('s, 'z) Graph_scheme \<Rightarrow> 'a ISource \<Rightarrow> nat
       \<Rightarrow> (exn + 'a list) \<times> ('s, 'z) Graph_scheme"
where
  "Graph_compute_call ops g source node_number =
     (Graph_compute ops g source node_number, g)"

fun Graph_calls ::
    "('l, 's, 'a) Stack_ops \<Rightarrow> ('s, 'z) Graph_scheme \<Rightarrow> ('a ISource \<times> nat) list
       \<Rightarrow> (exn + 'a list) list"
where
  "Graph_calls ops g [] = []"
| "Graph_calls ops g ((source, node_number) # calls) =
     (case Graph_compute_call ops g source node_number of
        (result, g') \<Rightarrow> result # Graph_calls ops g' calls)"

section \<open>Concrete collaborators and configurations\<close>

text \<open>
  A Stack that keeps its input width and reverses its input, as the dense layer of
  \<^verbatim>\<open>lwtnn-test-graph.cxx\<close> does to four inputs.
\<close>

definition reversing_ops :: "('l, nat, 'a) Stack_ops" where
  "reversing_ops =
     \<lparr>Stack_new = (\<lambda>n_inputs layers. Inr n_inputs),
      Stack_n_outputs = (\<lambda>stack. stack),
      Stack_compute = (\<lambda>stack v. Inr (rev v))\<rparr>"

text \<open>A single CONCATENATE entry with no sources.\<close>

definition empty_concatenate :: "NodeConfig list" where
  "empty_concatenate = [\<lparr>type = CONCATENATE, sources = [], index = 0\<rparr>]"

text \<open>A FEED_FORWARD entry whose source is a later entry.\<close>

definition forward_reference :: "NodeConfig list" where
  "forward_reference =
     [\<lparr>type = FEED_FORWARD, sources = [1], index = 0\<rparr>,
      \<lparr>type = INPUT, sources = [0], index = 2\<rparr>]"

text \<open>A single INPUT entry of declared width 2 reading slot 0.\<close>

definition single_input :: "NodeConfig list" where
  "single_input = [\<lparr>type = INPUT, sources = [0], index = 2\<rparr>]"

text \<open>
  The configuration of \<^verbatim>\<open>dummy_config\<close> in \<^verbatim>\<open>lwtnn-test-graph.cxx\<close>: two inputs, their
  concatenation, and two feed-forward nodes in a chain that apply layer 0.
\<close>

definition dummy_config :: "NodeConfig list" where
  "dummy_config =
     [\<lparr>type = INPUT, sources = [0], index = 2\<rparr>,
      \<lparr>type = INPUT, sources = [1], index = 2\<rparr>,
      \<lparr>type = CONCATENATE, sources = [0, 1], index = 0\<rparr>,
      \<lparr>type = FEED_FORWARD, sources = [2], index = 0\<rparr>,
      \<lparr>type = FEED_FORWARD, sources = [3], index = 0\<rparr>]"

text \<open>The state the constructor reaches on \<open>dummy_config\<close> with \<open>reversing_ops\<close>.\<close>

definition dummy_graph :: "nat Build" where
  "dummy_graph =
     \<lparr>m_nodes = [InputNode 0 2, InputNode 1 2, ConcatenateNode [0, 1] 4,
                 FeedForwardNode 0 2, FeedForwardNode 0 3],
      m_stacks = [4], node_map = [(0, 0), (1, 1), (2, 2), (3, 3), (4, 4)],
      stack_map = [(0, 0)]\<rparr>"

text \<open>Two FEED_FORWARD entries, each the only source of the other.\<close>

definition mutual_cycle :: "NodeConfig list" where
  "mutual_cycle =
     [\<lparr>type = FEED_FORWARD, sources = [1], index = 0\<rparr>,
      \<lparr>type = FEED_FORWARD, sources = [0], index = 0\<rparr>]"

text \<open>The same cycle after an INPUT entry.\<close>

definition input_then_cycle :: "NodeConfig list" where
  "input_then_cycle =
     [\<lparr>type = INPUT, sources = [0], index = 2\<rparr>,
      \<lparr>type = FEED_FORWARD, sources = [2], index = 0\<rparr>,
      \<lparr>type = FEED_FORWARD, sources = [1], index = 0\<rparr>]"


text \<open>The same cycle after an INPUT entry that has no source.\<close>

definition faulty_input_then_cycle :: "NodeConfig list" where
  "faulty_input_then_cycle =
     [\<lparr>type = INPUT, sources = [], index = 2\<rparr>,
      \<lparr>type = FEED_FORWARD, sources = [2], index = 0\<rparr>,
      \<lparr>type = FEED_FORWARD, sources = [1], index = 0\<rparr>]"

text \<open>
  A cycle of the entries 2 and 3 after an INPUT entry of width 2 and a FEED_FORWARD
  entry over it.
\<close>

definition feed_forward_then_cycle :: "NodeConfig list" where
  "feed_forward_then_cycle =
     [\<lparr>type = INPUT, sources = [0], index = 2\<rparr>,
      \<lparr>type = FEED_FORWARD, sources = [0], index = 0\<rparr>,
      \<lparr>type = FEED_FORWARD, sources = [3], index = 0\<rparr>,
      \<lparr>type = FEED_FORWARD, sources = [2], index = 0\<rparr>]"

text \<open>
  A Stack whose layer configuration is the input width it requires: the constructor
  throws a configuration exception for any other width. It reverses its input.
\<close>

definition checking_ops :: "(nat, nat, 'a) Stack_ops" where
  "checking_ops =
     \<lparr>Stack_new = (\<lambda>n_inputs layers.
        if layers = [n_inputs] then Inr n_inputs
        else Inl (NNConfigurationException ''width mismatch'')),
      Stack_n_outputs = (\<lambda>stack. stack),
      Stack_compute = (\<lambda>stack v. Inr (rev v))\<rparr>"


section \<open>Invariants of the construction\<close>

text \<open>
  \<open>shape_ok\<close>: the maps have distinct keys, the pointers they hold are the positions
  of \<open>m_nodes\<close> and of \<open>m_stacks\<close> in the order of insertion, and every key of
  \<open>node_map\<close> is a position of the configuration.
\<close>

definition shape_ok :: "NodeConfig list \<Rightarrow> 's Build \<Rightarrow> bool" where
  "shape_ok nodes st \<longleftrightarrow>
     map snd (node_map st) = [0..<length (m_nodes st)]
     \<and> distinct (map fst (node_map st))
     \<and> map snd (stack_map st) = [0..<length (m_stacks st)]
     \<and> distinct (map fst (stack_map st))
     \<and> (\<forall>k \<in> fst ` set (node_map st). k < length nodes)"

text \<open>\<open>extends st st'\<close>: \<open>st'\<close> is \<open>st\<close> with objects and map entries added at the end.\<close>

definition extends :: "'s Build \<Rightarrow> 's Build \<Rightarrow> bool" where
  "extends st st' \<longleftrightarrow>
     prefix (m_nodes st) (m_nodes st') \<and> prefix (m_stacks st) (m_stacks st')
     \<and> prefix (node_map st) (node_map st') \<and> prefix (stack_map st) (stack_map st')"

text \<open>No INPUT entry is ever put in \<open>cycle_check\<close>.\<close>

definition cycle_check_ok :: "NodeConfig list \<Rightarrow> nat set \<Rightarrow> bool" where
  "cycle_check_ok nodes cycle_check \<longleftrightarrow>
     (\<forall>c \<in> cycle_check. c < length nodes \<longrightarrow> type (nodes ! c) \<noteq> INPUT)"


text \<open>
  \<open>node_ok\<close>: the object at position \<open>p\<close> holds pointers to earlier nodes and to a stack
  that exists, and a Concatenate node holds the sum of the widths of its sources, as
  its constructor computes it.
  \<open>heap_ok\<close>: every node of the Graph is so.
\<close>

definition node_ok :: "('l, 's, 'a) Stack_ops \<Rightarrow> ('s, 'z) Graph_scheme \<Rightarrow> nat \<Rightarrow> bool" where
  "node_ok ops g p \<longleftrightarrow>
     (case m_nodes g ! p of
        InputNode m_index m_n_outputs \<Rightarrow> True
      | FeedForwardNode m_stack m_source \<Rightarrow> m_stack < length (m_stacks g) \<and> m_source < p
      | ConcatenateNode m_sources m_n_outputs \<Rightarrow>
          (\<forall>q \<in> set m_sources. q < p)
          \<and> m_n_outputs
              = sum_list (map (\<lambda>q. n_outputs ops (m_stacks g) (m_nodes g ! q)) m_sources)
                  mod 2 ^ 64)"

definition heap_ok :: "('l, 's, 'a) Stack_ops \<Rightarrow> ('s, 'z) Graph_scheme \<Rightarrow> bool" where
  "heap_ok ops g \<longleftrightarrow> (\<forall>p < length (m_nodes g). node_ok ops g p)"

text \<open>
  \<open>built_from\<close>: the object at position \<open>p\<close> is the node that \<^verbatim>\<open>build_node\<close> makes for
  configuration entry \<open>k\<close>, from the nodes that \<open>node_map\<close> holds for the sources of \<open>k\<close>
  and, for a FEED_FORWARD entry, the stack that \<open>stack_map\<close> holds for its layer number.
\<close>

definition built_from ::
    "('l, 's, 'a) Stack_ops \<Rightarrow> NodeConfig list \<Rightarrow> 'l list \<Rightarrow> 's Build \<Rightarrow> nat \<Rightarrow> nat \<Rightarrow> bool"
where
  "built_from ops nodes layers st k p \<longleftrightarrow>
     (case type (nodes ! k) of
        INPUT \<Rightarrow>
          length (sources (nodes ! k)) = 1 \<and> 0 \<le> index (nodes ! k)
          \<and> m_nodes st ! p = InputNode (sources (nodes ! k) ! 0) (nat (index (nodes ! k)))
      | FEED_FORWARD \<Rightarrow>
          (\<exists>s q sp. sources (nodes ! k) = [s] \<and> map_of (node_map st) s = Some q \<and> q < p
             \<and> 0 \<le> index (nodes ! k) \<and> nat (index (nodes ! k)) < length layers
             \<and> map_of (stack_map st) (nat (index (nodes ! k))) = Some sp
             \<and> m_nodes st ! p = FeedForwardNode sp q)
      | CONCATENATE \<Rightarrow>
          (\<exists>qs. in_nodes (node_map st) (sources (nodes ! k)) = Some qs
             \<and> (\<forall>q \<in> set qs. q < p)
             \<and> m_nodes st ! p = ConcatenateNode_new ops st qs)
      | OTHER \<Rightarrow> False)"

text \<open>
  \<open>content_ok\<close>: every entry of \<open>node_map\<close> leads to the node built from its key; the
  keys of \<open>stack_map\<close> are the layer numbers of the FEED_FORWARD entries built so far, and
  each leads to a Stack made from the layer configuration of that number.
\<close>

definition content_ok ::
    "('l, 's, 'a) Stack_ops \<Rightarrow> NodeConfig list \<Rightarrow> 'l list \<Rightarrow> 's Build \<Rightarrow> bool"
where
  "content_ok ops nodes layers st \<longleftrightarrow>
     (\<forall>(k, p) \<in> set (node_map st). built_from ops nodes layers st k p)
     \<and> fst ` set (stack_map st)
         = {nat (index (nodes ! k)) |k.
              k \<in> fst ` set (node_map st) \<and> type (nodes ! k) = FEED_FORWARD}
     \<and> (\<forall>(l, sp) \<in> set (stack_map st).
           l < length layers
           \<and> (\<exists>n_inputs. Stack_new ops n_inputs [layers ! l] = Inr (m_stacks st ! sp)))"

text \<open>The distinct layer numbers that the FEED_FORWARD entries of a configuration name.\<close>

definition referenced_layers :: "NodeConfig list \<Rightarrow> nat list" where
  "referenced_layers nodes =
     remdups (map (\<lambda>node. nat (index node))
                (filter (\<lambda>node. type node = FEED_FORWARD) nodes))"

text \<open>
  The dependency edges of a configuration, from a FEED_FORWARD or CONCATENATE entry to
  each of its sources. The configuration is acyclic when this relation is.
\<close>

definition config_edges :: "NodeConfig list \<Rightarrow> (nat \<times> nat) set" where
  "config_edges nodes =
     {(k, s). k < length nodes \<and> type (nodes ! k) \<noteq> INPUT \<and> s \<in> set (sources (nodes ! k))}"

text \<open>
  A configuration with no fault of arity, range or kind: every entry has the number of
  sources its kind requires, every source is a position of the configuration, an INPUT
  entry has a non-negative width and a FEED_FORWARD entry names an existing layer.
\<close>

definition valid_config :: "NodeConfig list \<Rightarrow> 'l list \<Rightarrow> bool" where
  "valid_config nodes layers \<longleftrightarrow>
     (\<forall>k < length nodes.
        case type (nodes ! k) of
          INPUT \<Rightarrow> length (sources (nodes ! k)) = 1 \<and> 0 \<le> index (nodes ! k)
        | FEED_FORWARD \<Rightarrow>
            length (sources (nodes ! k)) = 1
            \<and> (\<forall>s \<in> set (sources (nodes ! k)). s < length nodes)
            \<and> 0 \<le> index (nodes ! k) \<and> nat (index (nodes ! k)) < length layers
        | CONCATENATE \<Rightarrow> (\<forall>s \<in> set (sources (nodes ! k)). s < length nodes)
        | OTHER \<Rightarrow> False)"

text \<open>
  An exception that the constructor of Stack throws for a layer of the list, at some
  input width.
\<close>

definition stack_fault :: "('l, 's, 'a) Stack_ops \<Rightarrow> 'l list \<Rightarrow> exn \<Rightarrow> bool" where
  "stack_fault ops layers e \<longleftrightarrow>
     (\<exists>n_inputs. \<exists>l < length layers. Stack_new ops n_inputs [layers ! l] = Inl e)"

text \<open>
  The exceptions that end a construction: a configuration exception of the builder, or
  whatever the constructor of Stack throws.
\<close>

definition construction_fault :: "('l, 's, 'a) Stack_ops \<Rightarrow> exn \<Rightarrow> bool" where
  "construction_fault ops e \<longleftrightarrow>
     (\<exists>msg. e = NNConfigurationException msg) \<or> (\<exists>n_inputs ls. Stack_new ops n_inputs ls = Inl e)"

section \<open>Basic facts\<close>

lemma to_string_digit: "n < 10 \<Longrightarrow> to_string n = [digit_char n]"
  by (simp add: to_string.simps)

section \<open>The shape of the state is preserved\<close>

lemma update_new: "k \<notin> fst ` set al \<Longrightarrow> AList.update k v al = al @ [(k, v)]"
  by (induction al) auto

lemma map_of_None_iff: "map_of al k = None \<longleftrightarrow> k \<notin> fst ` set al"
  by (simp add: map_of_eq_None_iff)

lemma extends_refl [simp]: "extends st st"
  by (simp add: extends_def)

lemma extends_trans: "extends st st1 \<Longrightarrow> extends st1 st2 \<Longrightarrow> extends st st2"
  by (auto simp: extends_def)

lemma prefix_map_of:
  "prefix al al' \<Longrightarrow> map_of al k = Some v \<Longrightarrow> map_of al' k = Some v"
  by (auto simp: prefix_def)

lemma extends_node_map:
  "extends st st' \<Longrightarrow> map_of (node_map st) k = Some v \<Longrightarrow> map_of (node_map st') k = Some v"
  by (auto simp: extends_def intro: prefix_map_of)

lemma extends_stack_map:
  "extends st st' \<Longrightarrow> map_of (stack_map st) k = Some v \<Longrightarrow> map_of (stack_map st') k = Some v"
  by (auto simp: extends_def intro: prefix_map_of)

lemma push_node_new:
  "map_of (node_map st) iii = None \<Longrightarrow>
     node_map (push_node iii nd st) = node_map st @ [(iii, length (m_nodes st))]"
  by (simp add: push_node_def update_new map_of_None_iff)

lemma push_node_fields [simp]:
  "m_nodes (push_node iii nd st) = m_nodes st @ [nd]"
  "m_stacks (push_node iii nd st) = m_stacks st"
  "stack_map (push_node iii nd st) = stack_map st"
  by (simp_all add: push_node_def)

lemma push_node_shape:
  assumes "shape_ok nodes st" and "map_of (node_map st) iii = None" and "iii < length nodes"
  shows "shape_ok nodes (push_node iii nd st)" and "extends st (push_node iii nd st)"
  using assms
  by (auto simp: shape_ok_def extends_def push_node_new map_of_None_iff)

lemma get_feedforward_node_shape:
  assumes "get_feedforward_node ops node layers st = Inr (ff, st2)" and "shape_ok nodes st"
  shows "shape_ok nodes st2" and "extends st st2" and "node_map st2 = node_map st"
    and "m_nodes st2 = m_nodes st"
  using assms
  by (auto simp: get_feedforward_node_def Let_def shape_ok_def extends_def update_new
      map_of_None_iff split: if_splits option.splits sum.splits)

lemma build_shape:
  "shape_ok nodes st \<Longrightarrow> cycle_check_ok nodes cc
     \<Longrightarrow> build_node ops iii nodes layers st cc = Inr st'
     \<Longrightarrow> shape_ok nodes st' \<and> extends st st' \<and> map_of (node_map st') iii \<noteq> None
         \<and> (\<forall>c \<in> cc. map_of (node_map st') c \<noteq> None \<longrightarrow> map_of (node_map st) c \<noteq> None)"
  "shape_ok nodes st \<Longrightarrow> cycle_check_ok nodes cc
     \<Longrightarrow> build_sources ops srcs nodes layers st cc = Inr st'
     \<Longrightarrow> shape_ok nodes st' \<and> extends st st'
         \<and> (\<forall>s \<in> set srcs. map_of (node_map st') s \<noteq> None)
         \<and> (\<forall>c \<in> cc. map_of (node_map st') c \<noteq> None \<longrightarrow> map_of (node_map st) c \<noteq> None)"
proof (induction ops iii nodes layers st cc and ops srcs nodes layers st cc
    arbitrary: st' and st' rule: build_node_build_sources.induct)
  case (1 ops iii nodes layers st cc)
  show ?case
  proof (cases "map_of (node_map st) iii \<noteq> None")
    case True
    with "1.prems" show ?thesis by (simp add: build_node.simps)
  next
    case unmapped: False
    with "1.prems" have inrange: "iii < length nodes"
      by (auto simp: build_node.simps split: if_splits)
    show ?thesis
    proof (cases "type (nodes ! iii) = INPUT")
      case True
      with "1.prems" unmapped inrange
      have st': "st' = push_node iii (InputNode (sources (nodes ! iii) ! 0)
                          (nat (index (nodes ! iii)))) st"
        by (auto simp: build_node.simps Let_def split: if_splits)
      have "iii \<notin> cc" using True inrange "1.prems"(2) by (auto simp: cycle_check_ok_def)
      then show ?thesis
        using push_node_shape [OF "1.prems"(1) _ inrange, of _] unmapped
        by (auto simp: st' push_node_new)
    next
      case noninput: False
      with "1.prems" unmapped inrange have notin: "iii \<notin> cc"
        by (auto simp: build_node.simps Let_def split: if_splits)
      from "1.prems" unmapped inrange noninput notin obtain st1 where
        st1: "build_sources ops (sources (nodes ! iii)) nodes layers st (insert iii cc) = Inr st1"
        by (auto simp: build_node.simps Let_def split: if_splits sum.splits)
      have cc': "cycle_check_ok nodes (insert iii cc)"
        using "1.prems"(2) noninput by (auto simp: cycle_check_ok_def)
      from "1.IH" [OF _ _ refl noninput notin "1.prems"(1) cc' st1] unmapped inrange
      have ih: "shape_ok nodes st1" "extends st st1"
        "\<forall>c \<in> insert iii cc. map_of (node_map st1) c \<noteq> None \<longrightarrow> map_of (node_map st) c \<noteq> None"
        by auto
      then have un1: "map_of (node_map st1) iii = None" using unmapped by auto
      show ?thesis
      proof (cases "type (nodes ! iii) = FEED_FORWARD")
        case True
        with "1.prems"(3) unmapped inrange noninput notin st1 obtain ff st2 where
          ff: "get_feedforward_node ops (nodes ! iii) layers st1 = Inr (ff, st2)"
          and st': "st' = push_node iii ff st2"
          by (auto simp: build_node.simps Let_def split: sum.splits)
        note g = get_feedforward_node_shape [OF ff ih(1)]
        have un2: "map_of (node_map st2) iii = None" using un1 g(3) by simp
        have "extends st st'"
          using ih(2) g(2) push_node_shape(2) [OF g(1) un2 inrange] st'
          by (blast intro: extends_trans)
        then show ?thesis
          using push_node_shape(1) [OF g(1) un2 inrange] ih(3) notin
          by (auto simp: st' push_node_new [OF un2] g(3))
      next
        case False
        with "1.prems"(3) unmapped inrange noninput notin st1 obtain ins where
          st': "st' = push_node iii (ConcatenateNode_new ops st1 ins) st1"
          by (auto simp: build_node.simps Let_def split: if_splits option.splits)
        have "extends st st'"
          using ih(2) push_node_shape(2) [OF ih(1) un1 inrange] st'
          by (blast intro: extends_trans)
        then show ?thesis
          using push_node_shape(1) [OF ih(1) un1 inrange] ih(3) notin
          by (auto simp: st' push_node_new [OF un1])
      qed
    qed
  qed
next
  case (2 ops nodes layers st cc)
  then show ?case by simp
next
  case (3 ops source_node rest nodes layers st cc)
  from "3.prems"(3) obtain st1 where
    st1: "build_node ops source_node nodes layers st cc = Inr st1"
    and rest: "build_sources ops rest nodes layers st1 cc = Inr st'"
    by (auto split: sum.splits)
  note a = "3.IH"(1) [OF "3.prems"(1,2) st1]
  from a have sh1: "shape_ok nodes st1" by simp
  note b = "3.IH"(2) [OF st1 sh1 "3.prems"(2) rest]
  have "extends st st'" using a b by (blast intro: extends_trans)
  moreover have "map_of (node_map st') source_node \<noteq> None"
    using a b by (metis extends_node_map not_Some_eq)
  ultimately show ?case using a b by auto
qed

section \<open>The number of nodes of a constructed Graph\<close>

lemma Graph_loop_build_sources:
  "Graph_loop ops ids nodes layers st = build_sources ops ids nodes layers st {}"
  by (induction ids arbitrary: st) (auto split: sum.splits)

lemma shape_ok_empty [simp]: "shape_ok nodes empty_Build"
  by (simp add: shape_ok_def empty_Build_def)

lemma cycle_check_ok_empty [simp]: "cycle_check_ok nodes {}"
  by (simp add: cycle_check_ok_def)

lemma shape_ok_lengths:
  assumes "shape_ok nodes st"
  shows "length (m_nodes st) = length (node_map st)"
    and "length (node_map st) = card (fst ` set (node_map st))"
proof -
  from assms have "map snd (node_map st) = [0..<length (m_nodes st)]"
    by (simp add: shape_ok_def)
  then have "length (map snd (node_map st)) = length [0..<length (m_nodes st)]" by simp
  then show "length (m_nodes st) = length (node_map st)" by simp
  from assms have "distinct (map fst (node_map st))" by (simp add: shape_ok_def)
  then have "card (set (map fst (node_map st))) = length (map fst (node_map st))"
    by (rule distinct_card)
  then show "length (node_map st) = card (fst ` set (node_map st))" by simp
qed

lemma Graph_loop_shape:
  assumes "Graph_loop ops [0..<length nodes] nodes layers empty_Build = Inr st"
  shows "shape_ok nodes st" and "fst ` set (node_map st) = {..<length nodes}"
    and "length (m_nodes st) = length nodes" and "length (node_map st) = length nodes"
proof -
  from assms have b: "build_sources ops [0..<length nodes] nodes layers empty_Build {} = Inr st"
    by (simp add: Graph_loop_build_sources)
  note s = build_shape(2) [OF shape_ok_empty cycle_check_ok_empty b]
  from s show sh: "shape_ok nodes st" by simp
  from s have "\<forall>k<length nodes. k \<in> fst ` set (node_map st)"
    by (auto simp: map_of_None_iff)
  moreover from sh have "\<forall>k \<in> fst ` set (node_map st). k < length nodes"
    by (simp add: shape_ok_def)
  ultimately show keys: "fst ` set (node_map st) = {..<length nodes}" by auto
  from shape_ok_lengths [OF sh] keys
  show "length (m_nodes st) = length nodes" "length (node_map st) = length nodes" by simp_all
qed

lemma Graph_ctor_Inr:
  "Graph_ctor ops nodes layers = Inr g \<longleftrightarrow>
     Graph_loop ops [0..<length nodes] nodes layers empty_Build = Inr g"
  using Graph_loop_shape(4) [of ops nodes layers]
  by (auto simp: Graph_ctor_def split: sum.splits)

lemma Graph_ctor_shape:
  assumes "Graph_ctor ops nodes layers = Inr g"
  shows "shape_ok nodes g" and "fst ` set (node_map g) = {..<length nodes}"
    and "length (m_nodes g) = length nodes" and "length (node_map g) = length nodes"
  using assms Graph_loop_shape [of ops nodes layers g] by (simp_all add: Graph_ctor_Inr)

lemma Graph_ctor_single_input:
  "Graph_ctor ops single_input layers
     = Inr \<lparr>m_nodes = [InputNode 0 2], m_stacks = [], node_map = [(0, 0)], stack_map = []\<rparr>"
  by (simp add: Graph_ctor_def single_input_def empty_Build_def build_node.simps push_node_def)

lemma length_single_input [simp]: "length single_input = 1"
  by (simp add: single_input_def)

section \<open>Configurations whose dependencies come first\<close>









lemma Graph_ctor_dummy_config:
  "Graph_ctor reversing_ops dummy_config [layer] = Inr dummy_graph"
  by (simp add: Graph_ctor_def dummy_config_def empty_Build_def build_node.simps
      push_node_def get_feedforward_node_def ConcatenateNode_new_def reversing_ops_def upt_rec
      dummy_graph_def)


section \<open>Objects and map entries are never changed\<close>

lemma extends_nth_nodes:
  "extends st st' \<Longrightarrow> p < length (m_nodes st) \<Longrightarrow> m_nodes st' ! p = m_nodes st ! p"
  by (auto simp: extends_def prefix_def nth_append)

lemma extends_nth_stacks:
  "extends st st' \<Longrightarrow> sp < length (m_stacks st) \<Longrightarrow> m_stacks st' ! sp = m_stacks st ! sp"
  by (auto simp: extends_def prefix_def nth_append)

lemma extends_length_stacks:
  "extends st st' \<Longrightarrow> length (m_stacks st) \<le> length (m_stacks st')"
  by (auto simp: extends_def prefix_def)

lemma prefix_in_nodes:
  "prefix nm nm' \<Longrightarrow> in_nodes nm srcs = Some qs \<Longrightarrow> in_nodes nm' srcs = Some qs"
  by (induction srcs arbitrary: qs) (auto split: option.splits dest: prefix_map_of)

lemma extends_in_nodes:
  "extends st st' \<Longrightarrow> in_nodes (node_map st) srcs = Some qs
     \<Longrightarrow> in_nodes (node_map st') srcs = Some qs"
  by (auto simp: extends_def intro: prefix_in_nodes)

lemma in_nodes_set:
  "in_nodes nm srcs = Some qs \<Longrightarrow> q \<in> set qs \<Longrightarrow> \<exists>s. (s, q) \<in> set nm"
proof (induction srcs arbitrary: qs)
  case Nil
  then show ?case by simp
next
  case (Cons a srcs)
  from Cons.prems(1) obtain p z where a: "map_of nm a = Some p"
    and z: "in_nodes nm srcs = Some z" and qs: "qs = p # z"
    by (auto split: option.splits)
  show ?case
  proof (cases "q = p")
    case True
    with a show ?thesis by (blast dest: map_of_SomeD)
  next
    case False
    with Cons.prems(2) qs have "q \<in> set z" by simp
    with Cons.IH [OF z] show ?thesis .
  qed
qed

lemma in_nodes_total:
  "\<forall>s \<in> set srcs. map_of nm s \<noteq> None \<Longrightarrow> \<exists>qs. in_nodes nm srcs = Some qs"
  by (induction srcs) auto

lemma in_nodes_eq:
  "in_nodes nm srcs = Some qs \<Longrightarrow> map (map_of nm) srcs = map Some qs"
  by (induction srcs arbitrary: qs) (auto split: option.splits)

lemma shape_ok_pointer:
  assumes "shape_ok nodes st" and "(k, p) \<in> set (node_map st)"
  shows "p < length (m_nodes st)" and "k < length nodes"
proof -
  from assms(2) have "p \<in> set (map snd (node_map st))" by force
  with assms(1) show "p < length (m_nodes st)" by (simp add: shape_ok_def)
  from assms show "k < length nodes" by (force simp: shape_ok_def)
qed

lemma shape_ok_stack_pointer:
  assumes "shape_ok nodes st" and "(l, sp) \<in> set (stack_map st)"
  shows "sp < length (m_stacks st)"
proof -
  from assms(2) have "sp \<in> set (map snd (stack_map st))" by force
  with assms(1) show ?thesis by (simp add: shape_ok_def)
qed

lemma shape_ok_key_of:
  assumes "shape_ok nodes st" and "p < length (m_nodes st)"
  shows "\<exists>k. (k, p) \<in> set (node_map st)"
proof -
  from assms have "p \<in> set (map snd (node_map st))" by (simp add: shape_ok_def)
  then show ?thesis by auto
qed

lemma content_heap_ok:
  assumes "shape_ok nodes st" and "content_ok ops nodes layers st"
  shows "heap_ok ops st"
  unfolding heap_ok_def
proof (intro allI impI)
  fix p assume "p < length (m_nodes st)"
  from shape_ok_key_of [OF assms(1) this] obtain k where kp: "(k, p) \<in> set (node_map st)" ..
  with assms(2) have b: "built_from ops nodes layers st k p"
    by (auto simp: content_ok_def)
  show "node_ok ops st p"
  proof (cases "type (nodes ! k)")
    case INPUT
    with b show ?thesis by (simp add: built_from_def node_ok_def)
  next
    case FEED_FORWARD
    with b obtain q sp where "q < p"
      "map_of (stack_map st) (nat (index (nodes ! k))) = Some sp"
      "m_nodes st ! p = FeedForwardNode sp q"
      by (auto simp: built_from_def)
    moreover from this(2) have "sp < length (m_stacks st)"
      using shape_ok_stack_pointer [OF assms(1)] by (blast dest: map_of_SomeD)
    ultimately show ?thesis by (simp add: node_ok_def)
  next
    case CONCATENATE
    with b show ?thesis
      by (auto simp: built_from_def node_ok_def ConcatenateNode_new_def)
  next
    case OTHER
    with b show ?thesis by (simp add: built_from_def)
  qed
qed

lemma n_outputs_frame:
  assumes "heap_ok ops st" and "extends st st'" and "q < length (m_nodes st)"
  shows "n_outputs ops (m_stacks st') (m_nodes st' ! q) = n_outputs ops (m_stacks st) (m_nodes st ! q)"
proof -
  from assms(1,3) have "node_ok ops st q" by (simp add: heap_ok_def)
  then show ?thesis
    using extends_nth_nodes [OF assms(2,3)] extends_nth_stacks [OF assms(2)]
    by (cases "m_nodes st ! q") (auto simp: node_ok_def)
qed

lemma ConcatenateNode_new_frame:
  assumes "heap_ok ops st" and "extends st st'" and "\<forall>q \<in> set qs. q < length (m_nodes st)"
  shows "ConcatenateNode_new ops st' qs = ConcatenateNode_new ops st qs"
proof -
  have eq: "map (\<lambda>q. n_outputs ops (m_stacks st') (m_nodes st' ! q)) qs
          = map (\<lambda>q. n_outputs ops (m_stacks st) (m_nodes st ! q)) qs"
    using assms(3) n_outputs_frame [OF assms(1,2)] by simp
  show ?thesis unfolding ConcatenateNode_new_def eq by (rule refl)
qed

lemma built_from_frame:
  assumes sh: "shape_ok nodes st" and h: "heap_ok ops st" and ext: "extends st st'"
    and kp: "(k, p) \<in> set (node_map st)" and b: "built_from ops nodes layers st k p"
  shows "built_from ops nodes layers st' k p"
proof -
  note p = shape_ok_pointer(1) [OF sh kp]
  note nth = extends_nth_nodes [OF ext p]
  show ?thesis
  proof (cases "type (nodes ! k)")
    case INPUT
    with b nth show ?thesis by (simp add: built_from_def)
  next
    case FEED_FORWARD
    with b nth show ?thesis
      by (auto simp: built_from_def extends_node_map [OF ext] extends_stack_map [OF ext])
  next
    case CONCATENATE
    with b obtain qs where qs: "in_nodes (node_map st) (sources (nodes ! k)) = Some qs"
      "\<forall>q \<in> set qs. q < p" "m_nodes st ! p = ConcatenateNode_new ops st qs"
      by (auto simp: built_from_def)
    from qs(2) p have "\<forall>q \<in> set qs. q < length (m_nodes st)" by auto
    from ConcatenateNode_new_frame [OF h ext this] qs nth CONCATENATE
    show ?thesis
      by (auto simp: built_from_def extends_in_nodes [OF ext])
  next
    case OTHER
    with b show ?thesis by (simp add: built_from_def)
  qed
qed

section \<open>The ways in which a call succeeds\<close>

lemma build_node_Inr_cases:
  assumes "build_node ops iii nodes layers st cc = Inr st'"
  obtains (mapped) "map_of (node_map st) iii \<noteq> None" and "st' = st"
  | (input) "map_of (node_map st) iii = None" and "iii < length nodes"
      and "type (nodes ! iii) = INPUT" and "length (sources (nodes ! iii)) = 1"
      and "0 \<le> index (nodes ! iii)"
      and "st' = push_node iii (InputNode (sources (nodes ! iii) ! 0)
                   (nat (index (nodes ! iii)))) st"
  | (feed_forward) st1 ffn st2 where "map_of (node_map st) iii = None"
      and "iii < length nodes" and "type (nodes ! iii) = FEED_FORWARD" and "iii \<notin> cc"
      and "build_sources ops (sources (nodes ! iii)) nodes layers st (insert iii cc) = Inr st1"
      and "get_feedforward_node ops (nodes ! iii) layers st1 = Inr (ffn, st2)"
      and "st' = push_node iii ffn st2"
  | (concatenate) st1 ins where "map_of (node_map st) iii = None"
      and "iii < length nodes" and "type (nodes ! iii) = CONCATENATE" and "iii \<notin> cc"
      and "build_sources ops (sources (nodes ! iii)) nodes layers st (insert iii cc) = Inr st1"
      and "in_nodes (node_map st1) (sources (nodes ! iii)) = Some ins"
      and "st' = push_node iii (ConcatenateNode_new ops st1 ins) st1"
proof (cases "map_of (node_map st) iii \<noteq> None")
  case True
  with assms have "st' = st" by (simp add: build_node.simps)
  with True show ?thesis by (rule mapped)
next
  case un: False
  with assms have inrange: "iii < length nodes"
    by (auto simp: build_node.simps split: if_splits)
  show ?thesis
  proof (cases "type (nodes ! iii)")
    case INPUT
    with assms un inrange have "length (sources (nodes ! iii)) = 1"
      "0 \<le> index (nodes ! iii)"
      "st' = push_node iii (InputNode (sources (nodes ! iii) ! 0)
                (nat (index (nodes ! iii)))) st"
      by (auto simp: build_node.simps Let_def split: if_splits)
    with un inrange INPUT show ?thesis by (intro input) simp_all
  next
    case FEED_FORWARD
    with assms un inrange have notin: "iii \<notin> cc"
      by (auto simp: build_node.simps Let_def split: if_splits)
    with assms un inrange FEED_FORWARD obtain st1 where st1:
      "build_sources ops (sources (nodes ! iii)) nodes layers st (insert iii cc) = Inr st1"
      by (auto simp: build_node.simps Let_def split: sum.splits)
    with assms un inrange FEED_FORWARD notin obtain ffn st2 where
      "get_feedforward_node ops (nodes ! iii) layers st1 = Inr (ffn, st2)"
      "st' = push_node iii ffn st2"
      by (auto simp: build_node.simps Let_def split: sum.splits)
    with un inrange FEED_FORWARD notin st1 show ?thesis by (intro feed_forward) simp_all
  next
    case CONCATENATE
    with assms un inrange have notin: "iii \<notin> cc"
      by (auto simp: build_node.simps Let_def split: if_splits)
    with assms un inrange CONCATENATE obtain st1 where st1:
      "build_sources ops (sources (nodes ! iii)) nodes layers st (insert iii cc) = Inr st1"
      by (auto simp: build_node.simps Let_def split: sum.splits)
    with assms un inrange CONCATENATE notin obtain ins where
      "in_nodes (node_map st1) (sources (nodes ! iii)) = Some ins"
      "st' = push_node iii (ConcatenateNode_new ops st1 ins) st1"
      by (auto simp: build_node.simps Let_def split: option.splits)
    with un inrange CONCATENATE notin st1 show ?thesis by (intro concatenate) simp_all
  next
    case OTHER
    with assms un inrange show ?thesis
      by (auto simp: build_node.simps Let_def split: if_splits sum.splits)
  qed
qed

lemma update_new': "map_of al k = None \<Longrightarrow> AList.update k v al = al @ [(k, v)]"
  by (simp add: update_new map_of_None_iff)

lemma length_one_nth: "length xs = 1 \<Longrightarrow> xs = [xs ! 0]"
  by (cases xs) auto

lemma get_feedforward_node_Inr:
  assumes "get_feedforward_node ops node layers st = Inr (ffn, st2)"
  shows "\<exists>s q sp. sources node = [s] \<and> map_of (node_map st) s = Some q
    \<and> 0 \<le> index node \<and> nat (index node) < length layers
    \<and> ffn = FeedForwardNode sp q
    \<and> ((map_of (stack_map st) (nat (index node)) = Some sp \<and> st2 = st)
         \<or> (map_of (stack_map st) (nat (index node)) = None \<and> sp = length (m_stacks st)
            \<and> (\<exists>stack. Stack_new ops (n_outputs ops (m_stacks st) (m_nodes st ! q))
                           [layers ! nat (index node)] = Inr stack
                  \<and> st2 = st\<lparr>m_stacks := m_stacks st @ [stack],
                            stack_map := stack_map st
                              @ [(nat (index node), length (m_stacks st))]\<rparr>)))"
proof -
  from assms have len: "length (sources node) = 1"
    by (auto simp: get_feedforward_node_def Let_def split: if_splits)
  then have src: "sources node = [sources node ! 0]" by (rule length_one_nth)
  from assms len obtain q where q: "map_of (node_map st) (sources node ! 0) = Some q"
    by (auto simp: get_feedforward_node_def Let_def split: if_splits option.splits)
  from assms len q have idx: "0 \<le> index node" "nat (index node) < length layers"
    by (auto simp: get_feedforward_node_def Let_def split: if_splits)
  show ?thesis
  proof (cases "map_of (stack_map st) (nat (index node))")
    case None
    with assms len q idx obtain stack where
      "Stack_new ops (n_outputs ops (m_stacks st) (m_nodes st ! q))
         [layers ! nat (index node)] = Inr stack"
      "st2 = st\<lparr>m_stacks := m_stacks st @ [stack],
                stack_map := stack_map st @ [(nat (index node), length (m_stacks st))]\<rparr>"
      "ffn = FeedForwardNode (length (m_stacks st)) q"
      by (auto simp: get_feedforward_node_def Let_def update_new' map_add_def
          split: if_splits sum.splits)
    with src q idx None show ?thesis by blast
  next
    case (Some sp)
    with assms len q idx have "st2 = st" "ffn = FeedForwardNode sp q"
      by (auto simp: get_feedforward_node_def Let_def split: if_splits)
    with src q idx Some show ?thesis by blast
  qed
qed

section \<open>Every map entry leads to the node built from its key\<close>

lemma content_ok_empty [simp]: "content_ok ops nodes layers empty_Build"
  by (simp add: content_ok_def empty_Build_def)

lemma content_ok_push:
  assumes sh: "shape_ok nodes st" and c: "content_ok ops nodes layers st"
    and un: "map_of (node_map st) iii = None" and inrange: "iii < length nodes"
    and nty: "type (nodes ! iii) \<noteq> FEED_FORWARD"
    and new: "built_from ops nodes layers (push_node iii nd st) iii (length (m_nodes st))"
  shows "content_ok ops nodes layers (push_node iii nd st)"
proof -
  let ?st' = "push_node iii nd st"
  note ext = push_node_shape(2) [OF sh un inrange, of nd]
  note h = content_heap_ok [OF sh c]
  note nm = push_node_new [OF un, of nd]
  have 1: "\<forall>(k, p) \<in> set (node_map ?st'). built_from ops nodes layers ?st' k p"
  proof (clarify)
    fix k p assume "(k, p) \<in> set (node_map ?st')"
    then consider "(k, p) \<in> set (node_map st)" | "k = iii" "p = length (m_nodes st)"
      by (auto simp: nm)
    then show "built_from ops nodes layers ?st' k p"
    proof cases
      case 1
      with c have "built_from ops nodes layers st k p" by (auto simp: content_ok_def)
      from built_from_frame [OF sh h ext 1 this] show ?thesis .
    next
      case 2
      with new show ?thesis by simp
    qed
  qed
  have 2: "fst ` set (stack_map ?st')
         = {nat (index (nodes ! k)) |k.
              k \<in> fst ` set (node_map ?st') \<and> type (nodes ! k) = FEED_FORWARD}"
  proof -
    have "{nat (index (nodes ! k)) |k.
              k \<in> fst ` set (node_map ?st') \<and> type (nodes ! k) = FEED_FORWARD}
        = {nat (index (nodes ! k)) |k.
              k \<in> fst ` set (node_map st) \<and> type (nodes ! k) = FEED_FORWARD}"
      using nty by (auto simp: nm)
    with c show ?thesis by (simp add: content_ok_def)
  qed
  have 3: "\<forall>(l, sp) \<in> set (stack_map ?st'). l < length layers
           \<and> (\<exists>n_inputs. Stack_new ops n_inputs [layers ! l] = Inr (m_stacks ?st' ! sp))"
    using c by (simp add: content_ok_def)
  from 1 2 3 show ?thesis unfolding content_ok_def by blast
qed

lemma content_ok_push_ff:
  assumes sh: "shape_ok nodes st" and c: "content_ok ops nodes layers st"
    and un: "map_of (node_map st) iii = None" and inrange: "iii < length nodes"
    and ty: "type (nodes ! iii) = FEED_FORWARD"
    and ff: "get_feedforward_node ops (nodes ! iii) layers st = Inr (ffn, st2)"
  shows "content_ok ops nodes layers (push_node iii ffn st2)"
proof -
  let ?st' = "push_node iii ffn st2"
  let ?l = "nat (index (nodes ! iii))"
  note g = get_feedforward_node_shape [OF ff sh]
  have un2: "map_of (node_map st2) iii = None" using un g(3) by simp
  note ext2 = push_node_shape(2) [OF g(1) un2 inrange, of ffn]
  have ext: "extends st ?st'" using g(2) ext2 by (rule extends_trans)
  note sh' = push_node_shape(1) [OF g(1) un2 inrange, of ffn]
  note h = content_heap_ok [OF sh c]
  have nm: "node_map ?st' = node_map st @ [(iii, length (m_nodes st))]"
    using push_node_new [OF un2, of ffn] g(3,4) by simp
  from get_feedforward_node_Inr [OF ff] obtain s q sp where
    src: "sources (nodes ! iii) = [s]" and q: "map_of (node_map st) s = Some q"
    and idx: "0 \<le> index (nodes ! iii)" "?l < length layers"
    and ffn: "ffn = FeedForwardNode sp q"
    and alt: "(map_of (stack_map st) ?l = Some sp \<and> st2 = st)
         \<or> (map_of (stack_map st) ?l = None \<and> sp = length (m_stacks st)
            \<and> (\<exists>stack. Stack_new ops (n_outputs ops (m_stacks st) (m_nodes st ! q))
                           [layers ! ?l] = Inr stack
                  \<and> st2 = st\<lparr>m_stacks := m_stacks st @ [stack],
                            stack_map := stack_map st @ [(?l, length (m_stacks st))]\<rparr>))"
    by blast
  from alt have sp2: "map_of (stack_map st2) ?l = Some sp"
    by (auto simp: map_add_def)
  have qlt: "q < length (m_nodes st)"
    using shape_ok_pointer(1) [OF sh] q by (blast dest: map_of_SomeD)
  have new: "built_from ops nodes layers ?st' iii (length (m_nodes st))"
    using ty src idx ffn sp2 qlt extends_node_map [OF ext q] g(4)
    by (simp add: built_from_def)
  have 1: "\<forall>(k, p) \<in> set (node_map ?st'). built_from ops nodes layers ?st' k p"
  proof (clarify)
    fix k p assume "(k, p) \<in> set (node_map ?st')"
    then consider "(k, p) \<in> set (node_map st)" | "k = iii" "p = length (m_nodes st)"
      by (auto simp: nm)
    then show "built_from ops nodes layers ?st' k p"
    proof cases
      case 1
      with c have "built_from ops nodes layers st k p" by (auto simp: content_ok_def)
      from built_from_frame [OF sh h ext 1 this] show ?thesis .
    next
      case 2
      with new show ?thesis by simp
    qed
  qed
  have keys2: "fst ` set (stack_map st2) = insert ?l (fst ` set (stack_map st))"
    using alt by (auto dest: map_of_SomeD simp: rev_image_eqI)
  have 2: "fst ` set (stack_map ?st')
         = {nat (index (nodes ! k)) |k.
              k \<in> fst ` set (node_map ?st') \<and> type (nodes ! k) = FEED_FORWARD}"
  proof -
    have "{nat (index (nodes ! k)) |k.
              k \<in> fst ` set (node_map ?st') \<and> type (nodes ! k) = FEED_FORWARD}
        = insert ?l {nat (index (nodes ! k)) |k.
              k \<in> fst ` set (node_map st) \<and> type (nodes ! k) = FEED_FORWARD}"
      using ty by (auto simp: nm)
    with c keys2 show ?thesis by (simp add: content_ok_def)
  qed
  have 3: "\<forall>(l, sp) \<in> set (stack_map ?st'). l < length layers
           \<and> (\<exists>n_inputs. Stack_new ops n_inputs [layers ! l] = Inr (m_stacks ?st' ! sp))"
  proof (clarify)
    fix l sp' assume in': "(l, sp') \<in> set (stack_map ?st')"
    then consider "(l, sp') \<in> set (stack_map st)"
      | "l = ?l" "sp' = length (m_stacks st)" "map_of (stack_map st) ?l = None"
      using alt by auto
    then show "l < length layers
           \<and> (\<exists>n_inputs. Stack_new ops n_inputs [layers ! l] = Inr (m_stacks ?st' ! sp'))"
    proof cases
      case 1
      with c have "l < length layers"
        "\<exists>n_inputs. Stack_new ops n_inputs [layers ! l] = Inr (m_stacks st ! sp')"
        by (auto simp: content_ok_def)
      moreover have "m_stacks ?st' ! sp' = m_stacks st ! sp'"
        using extends_nth_stacks [OF ext shape_ok_stack_pointer [OF sh 1]] .
      ultimately show ?thesis by simp
    next
      case 2
      with alt obtain stack where
        "Stack_new ops (n_outputs ops (m_stacks st) (m_nodes st ! q)) [layers ! ?l] = Inr stack"
        "st2 = st\<lparr>m_stacks := m_stacks st @ [stack],
                  stack_map := stack_map st @ [(?l, length (m_stacks st))]\<rparr>"
        by auto
      with 2 idx show ?thesis by auto
    qed
  qed
  from 1 2 3 show ?thesis unfolding content_ok_def by blast
qed

lemma build_content:
  "shape_ok nodes st \<Longrightarrow> cycle_check_ok nodes cc \<Longrightarrow> content_ok ops nodes layers st
     \<Longrightarrow> build_node ops iii nodes layers st cc = Inr st'
     \<Longrightarrow> content_ok ops nodes layers st'"
  "shape_ok nodes st \<Longrightarrow> cycle_check_ok nodes cc \<Longrightarrow> content_ok ops nodes layers st
     \<Longrightarrow> build_sources ops srcs nodes layers st cc = Inr st'
     \<Longrightarrow> content_ok ops nodes layers st'"
proof (induction ops iii nodes layers st cc and ops srcs nodes layers st cc
    arbitrary: st' and st' rule: build_node_build_sources.induct)
  case (1 ops iii nodes layers st cc)
  note sh = "1.prems"(1) and cc = "1.prems"(2) and c = "1.prems"(3)
  from "1.prems"(4) show ?case
  proof (cases rule: build_node_Inr_cases)
    case mapped
    with c show ?thesis by simp
  next
    case input
    have "built_from ops nodes layers st' iii (length (m_nodes st))"
      using input by (simp add: built_from_def)
    with content_ok_push [OF sh c input(1,2)] input show ?thesis by simp
  next
    case (feed_forward st1 ffn st2)
    have cc': "cycle_check_ok nodes (insert iii cc)"
      using cc feed_forward(3) by (auto simp: cycle_check_ok_def)
    have c1: "content_ok ops nodes layers st1"
      using "1.IH" [OF _ _ refl _ feed_forward(4) sh cc' c feed_forward(5)] feed_forward(1,2,3)
      by simp
    note s = build_shape(2) [OF sh cc' feed_forward(5)]
    from s have sh1: "shape_ok nodes st1" by simp
    from s feed_forward(1) have un1: "map_of (node_map st1) iii = None" by auto
    from content_ok_push_ff [OF sh1 c1 un1 feed_forward(2,3,6)] feed_forward(7)
    show ?thesis by simp
  next
    case (concatenate st1 ins)
    have cc': "cycle_check_ok nodes (insert iii cc)"
      using cc concatenate(3) by (auto simp: cycle_check_ok_def)
    have c1: "content_ok ops nodes layers st1"
      using "1.IH" [OF _ _ refl _ concatenate(4) sh cc' c concatenate(5)] concatenate(1,2,3)
      by simp
    note s = build_shape(2) [OF sh cc' concatenate(5)]
    from s have sh1: "shape_ok nodes st1" by simp
    from s concatenate(1) have un1: "map_of (node_map st1) iii = None" by auto
    note ext = push_node_shape(2) [OF sh1 un1 concatenate(2), of "ConcatenateNode_new ops st1 ins"]
    note h1 = content_heap_ok [OF sh1 c1]
    have lt: "\<forall>q \<in> set ins. q < length (m_nodes st1)"
      using in_nodes_set [OF concatenate(6)] shape_ok_pointer(1) [OF sh1] by blast
    have "built_from ops nodes layers st' iii (length (m_nodes st1))"
      using concatenate(3,7) extends_in_nodes [OF ext concatenate(6)] lt
        ConcatenateNode_new_frame [OF h1 ext lt]
      by (simp add: built_from_def)
    with content_ok_push [OF sh1 c1 un1 concatenate(2)] concatenate(3,7)
    show ?thesis by simp
  qed
next
  case (2 ops nodes layers st cc)
  then show ?case by simp
next
  case (3 ops source_node rest nodes layers st cc)
  from "3.prems"(4) obtain st1 where
    st1: "build_node ops source_node nodes layers st cc = Inr st1"
    and rest: "build_sources ops rest nodes layers st1 cc = Inr st'"
    by (auto split: sum.splits)
  from build_shape(1) [OF "3.prems"(1,2) st1] have sh1: "shape_ok nodes st1" by simp
  from "3.IH"(1) [OF "3.prems"(1,2,3) st1] have c1: "content_ok ops nodes layers st1" .
  from "3.IH"(2) [OF st1 sh1 "3.prems"(2) c1 rest] show ?case .
qed

lemma Graph_ctor_content:
  assumes "Graph_ctor ops nodes layers = Inr g"
  shows "content_ok ops nodes layers g" and "heap_ok ops g"
proof -
  from assms have "build_sources ops [0..<length nodes] nodes layers empty_Build {} = Inr g"
    by (simp add: Graph_ctor_Inr Graph_loop_build_sources)
  from build_content(2) [OF shape_ok_empty cycle_check_ok_empty content_ok_empty this]
  show c: "content_ok ops nodes layers g" .
  from content_heap_ok [OF Graph_ctor_shape(1) [OF assms] c] show "heap_ok ops g" .
qed

section \<open>Sources are built before their consumers\<close>

lemma shape_ok_map_of:
  assumes "shape_ok nodes st" and "(k, p) \<in> set (node_map st)"
  shows "map_of (node_map st) k = Some p"
  using assms by (simp add: shape_ok_def)

lemma in_nodes_source:
  "in_nodes nm srcs = Some qs \<Longrightarrow> s \<in> set srcs \<Longrightarrow> \<exists>q \<in> set qs. map_of nm s = Some q"
  by (induction srcs arbitrary: qs) (auto split: option.splits)

lemma built_from_source_lt:
  assumes "built_from ops nodes layers st k p" and "type (nodes ! k) \<noteq> INPUT"
    and "s \<in> set (sources (nodes ! k))"
  shows "\<exists>q. map_of (node_map st) s = Some q \<and> q < p"
proof (cases "type (nodes ! k)")
  case INPUT
  with assms show ?thesis by simp
next
  case FEED_FORWARD
  with assms show ?thesis by (auto simp: built_from_def)
next
  case CONCATENATE
  with assms(1) obtain qs where "in_nodes (node_map st) (sources (nodes ! k)) = Some qs"
    "\<forall>q \<in> set qs. q < p"
    by (auto simp: built_from_def)
  with in_nodes_source [OF this(1) assms(3)] show ?thesis by auto
next
  case OTHER
  with assms show ?thesis by (simp add: built_from_def)
qed

lemma Graph_ctor_source_earlier:
  assumes g: "Graph_ctor ops nodes layers = Inr g" and k: "k < length nodes"
    and ty: "type (nodes ! k) \<noteq> INPUT" and s: "s \<in> set (sources (nodes ! k))"
  shows "\<exists>p q. map_of (node_map g) k = Some p \<and> map_of (node_map g) s = Some q \<and> q < p"
proof -
  note sh = Graph_ctor_shape(1) [OF g]
  from k Graph_ctor_shape(2) [OF g] have "k \<in> fst ` set (node_map g)" by simp
  then obtain p where kp: "(k, p) \<in> set (node_map g)" by auto
  with Graph_ctor_content(1) [OF g] have "built_from ops nodes layers g k p"
    by (auto simp: content_ok_def)
  from built_from_source_lt [OF this ty s] shape_ok_map_of [OF sh kp] show ?thesis by blast
qed

lemma mutual_cycle_no_Graph:
  assumes "a < length nodes" and "b < length nodes"
    and "type (nodes ! a) \<noteq> INPUT" and "type (nodes ! b) \<noteq> INPUT"
    and "b \<in> set (sources (nodes ! a))" and "a \<in> set (sources (nodes ! b))"
  shows "Graph_ctor ops nodes layers \<noteq> Inr g"
proof
  assume g: "Graph_ctor ops nodes layers = Inr g"
  from Graph_ctor_source_earlier [OF g assms(1,3,5)] Graph_ctor_source_earlier [OF g assms(2,4,6)]
  show False by auto
qed

lemma cycle_first:
  assumes b: "b < length nodes"
    and ty: "type (nodes ! 0) \<noteq> INPUT" "type (nodes ! b) \<noteq> INPUT"
    and src: "sources (nodes ! 0) = b # ra" "sources (nodes ! b) = 0 # rb"
  shows "Graph_ctor ops nodes layers
           = Inl (NNConfigurationException ''found cycle in graph'', empty_Build)"
proof -
  have nm: "node_map (empty_Build :: 's Build) = []" by (simp add: empty_Build_def)
  from b have pos: "0 < length nodes" by (cases nodes) simp_all
  have 3: "build_node ops 0 nodes layers empty_Build (insert b {0})
             = Inl (NNConfigurationException ''found cycle in graph'', empty_Build)"
    using pos ty by (subst build_node.simps) (simp add: nm)
  have 2: "build_node ops b nodes layers empty_Build {0}
             = Inl (NNConfigurationException ''found cycle in graph'', empty_Build)"
  proof (cases "b = 0")
    case True
    with pos ty show ?thesis by (subst build_node.simps) (simp add: nm)
  next
    case False
    with b ty src 3 show ?thesis by (subst build_node.simps) (simp add: nm)
  qed
  have 1: "build_node ops 0 nodes layers empty_Build {}
             = Inl (NNConfigurationException ''found cycle in graph'', empty_Build)"
    using pos ty src 2 by (subst build_node.simps) (simp add: nm)
  have "[0..<length nodes] = 0 # [Suc 0..<length nodes]"
    using pos by (rule upt_conv_Cons)
  with 1 show ?thesis by (simp add: Graph_ctor_def)
qed

section \<open>The stacks of a constructed Graph\<close>

lemma set_referenced_layers:
  "set (referenced_layers nodes)
     = {nat (index (nodes ! k)) |k. k < length nodes \<and> type (nodes ! k) = FEED_FORWARD}"
proof -
  have "set (referenced_layers nodes)
          = (\<lambda>node. nat (index node)) ` {node \<in> set nodes. type node = FEED_FORWARD}"
    by (simp add: referenced_layers_def)
  also have "{node \<in> set nodes. type node = FEED_FORWARD}
          = {nodes ! k |k. k < length nodes \<and> type (nodes ! k) = FEED_FORWARD}"
    by (auto simp: in_set_conv_nth)
  finally show ?thesis by auto
qed

lemma shape_ok_stack_lengths:
  assumes "shape_ok nodes st"
  shows "length (m_stacks st) = card (fst ` set (stack_map st))"
proof -
  from assms have "map snd (stack_map st) = [0..<length (m_stacks st)]"
    by (simp add: shape_ok_def)
  then have "length (map snd (stack_map st)) = length [0..<length (m_stacks st)]" by simp
  then have 1: "length (m_stacks st) = length (stack_map st)" by simp
  from assms have "distinct (map fst (stack_map st))" by (simp add: shape_ok_def)
  then have "card (set (map fst (stack_map st))) = length (map fst (stack_map st))"
    by (rule distinct_card)
  with 1 show ?thesis by simp
qed

lemma Graph_ctor_stack_keys:
  assumes "Graph_ctor ops nodes layers = Inr g"
  shows "fst ` set (stack_map g) = set (referenced_layers nodes)"
  using Graph_ctor_content(1) [OF assms] Graph_ctor_shape(2) [OF assms]
  by (simp add: content_ok_def set_referenced_layers)

section \<open>Acyclic configurations\<close>










section \<open>Evaluation of Concatenate nodes\<close>

lemma write_segment_append:
  "length v \<le> r \<Longrightarrow>
     write_segment (map Some xs @ replicate r None) (length xs) v
       = map Some (xs @ v) @ replicate (r - length v) None"
  by (simp add: write_segment_def)

lemma ConcatenateNode_loop_Inr:
  "ConcatenateNode_loop ops g source this qs (length xs) (map Some xs @ replicate r None)
       = Inr (offset', out')
     \<Longrightarrow> \<exists>vs. list_all2 (\<lambda>q v. compute ops g source q = Inr v
                   \<and> length v = n_outputs ops (m_stacks g) (m_nodes g ! q)) qs vs
           \<and> length (concat vs) \<le> r
           \<and> offset' = length xs + length (concat vs)
           \<and> out' = map Some (xs @ concat vs) @ replicate (r - length (concat vs)) None"
proof (induction qs arbitrary: xs r)
  case Nil
  then show ?case by auto
next
  case (Cons q qs)
  from Cons.prems obtain v where v: "compute ops g source q = Inr v"
    and len: "length v = n_outputs ops (m_stacks g) (m_nodes g ! q)"
    and fit: "length v \<le> r"
    and rest: "ConcatenateNode_loop ops g source this qs (length xs + length v)
                 (write_segment (map Some xs @ replicate r None) (length xs) v)
               = Inr (offset', out')"
    by (auto simp: Let_def split: if_splits sum.splits)
  from rest fit have
    "ConcatenateNode_loop ops g source this qs (length (xs @ v))
       (map Some (xs @ v) @ replicate (r - length v) None) = Inr (offset', out')"
    by (simp add: write_segment_append)
  from Cons.IH [OF this] obtain vs where
    vs: "list_all2 (\<lambda>q v. compute ops g source q = Inr v
                   \<and> length v = n_outputs ops (m_stacks g) (m_nodes g ! q)) qs vs"
    and "length (concat vs) \<le> r - length v"
    and "offset' = length (xs @ v) + length (concat vs)"
    and "out' = map Some ((xs @ v) @ concat vs)
                  @ replicate (r - length v - length (concat vs)) None"
    by blast
  with v len fit show ?case
    by (intro exI [of _ "v # vs"]) simp
qed

lemma ConcatenateNode_loop_succeeds:
  "list_all2 (\<lambda>q v. compute ops g source q = Inr v
                \<and> length v = n_outputs ops (m_stacks g) (m_nodes g ! q)) qs vs
     \<Longrightarrow> \<forall>q \<in> set qs. q < this \<Longrightarrow> length (concat vs) \<le> r
     \<Longrightarrow> ConcatenateNode_loop ops g source this qs (length xs)
           (map Some xs @ replicate r None)
         = Inr (length xs + length (concat vs),
                map Some (xs @ concat vs) @ replicate (r - length (concat vs)) None)"
proof (induction qs vs arbitrary: xs r rule: list_all2_induct)
  case Nil
  then show ?case by simp
next
  case (Cons q qs v vs)
  from Cons.prems have fit: "length v \<le> r" and fit': "length (concat vs) \<le> r - length v"
    by simp_all
  from Cons.prems have lt: "\<forall>q \<in> set qs. q < this" by simp
  from Cons.IH [OF lt fit', of "xs @ v"] Cons.hyps(1) Cons.prems(1) fit
  show ?case
    by (simp add: write_segment_append add.assoc Let_def)
qed

lemma ConcatenateNode_loop_length:
  "ConcatenateNode_loop ops g source this qs offset out = Inr (offset', out')
     \<Longrightarrow> length out' = length out"
  by (induction qs arbitrary: offset out)
    (auto simp: Let_def write_segment_def split: if_splits sum.splits)

lemma compute_width:
  assumes "Stack_contract ops" and "compute ops g source p = Inr v"
  shows "length v = n_outputs ops (m_stacks g) (m_nodes g ! p)"
proof (cases "m_nodes g ! p")
  case (InputNode m_index m_n_outputs)
  with assms(2) show ?thesis
    by (auto simp: compute.simps [of ops g source p] InputNode_compute_def
        split: if_splits sum.splits)
next
  case (FeedForwardNode m_stack m_source)
  with assms show ?thesis
    by (auto simp: compute.simps [of ops g source p] Stack_contract_def
        split: if_splits sum.splits)
next
  case (ConcatenateNode m_sources m_n_outputs)
  with assms(2) obtain offset out where
    loop: "ConcatenateNode_loop ops g source p m_sources 0 (replicate m_n_outputs None)
             = Inr (offset, out)"
    and v: "v = map the out"
    by (auto simp: compute.simps [of ops g source p] split: if_splits sum.splits)
  from ConcatenateNode_loop_length [OF loop] v ConcatenateNode show ?thesis by simp
qed

text \<open>
  A Concatenate node of positive declared width whose upstream computations all succeed
  returns their results in the listed order, one after the other, and the length of
  the result is the declared width (the Stack keeping its contract, and the sum of the
  upstream widths being below \<open>2 ^ 64\<close>).
\<close>

lemma ConcatenateNode_compute_concat:
  assumes contract: "Stack_contract ops" and p: "p < length (m_nodes g)"
    and node: "m_nodes g ! p = ConcatenateNode qs n" and ok: "node_ok ops g p"
    and up: "list_all2 (\<lambda>q v. compute ops g source q = Inr v) qs vs" and pos: "0 < n"
    and small: "sum_list (map (\<lambda>q. n_outputs ops (m_stacks g) (m_nodes g ! q)) qs) < 2 ^ 64"
  shows "compute ops g source p = Inr (concat vs)" and "length (concat vs) = n"
proof -
  from up have up': "list_all2 (\<lambda>q v. compute ops g source q = Inr v
                \<and> length v = n_outputs ops (m_stacks g) (m_nodes g ! q)) qs vs"
    by (rule list_all2_mono) (simp add: compute_width [OF contract])
  then have "map length vs = map (\<lambda>q. n_outputs ops (m_stacks g) (m_nodes g ! q)) qs"
    by (induction rule: list_all2_induct) simp_all
  with ok node small show n: "length (concat vs) = n"
    by (simp add: node_ok_def length_concat)
  from ok node have lt: "\<forall>q \<in> set qs. q < p" by (simp add: node_ok_def)
  from ConcatenateNode_loop_succeeds [OF up' lt, of n "[]"] n
  have "ConcatenateNode_loop ops g source p qs 0 (replicate n None)
          = Inr (n, map Some (concat vs))"
    by simp
  with p node pos show "compute ops g source p = Inr (concat vs)"
    by (simp add: compute.simps [of ops g source p] comp_def)
qed

text \<open>
  On a Graph whose nodes are \<open>node_ok\<close>, as every constructed Graph is, no evaluation ends
  in \<open>undefined_behaviour\<close>, unless the source or the Stack does.
\<close>

lemma compute_defined:
  "heap_ok ops g \<Longrightarrow> \<forall>s v. Stack_compute ops s v \<noteq> Inl undefined_behaviour
     \<Longrightarrow> \<forall>i. source i \<noteq> Inl undefined_behaviour \<Longrightarrow> node < length (m_nodes g)
     \<Longrightarrow> compute ops g source node \<noteq> Inl undefined_behaviour"
  "heap_ok ops g \<Longrightarrow> \<forall>s v. Stack_compute ops s v \<noteq> Inl undefined_behaviour
     \<Longrightarrow> \<forall>i. source i \<noteq> Inl undefined_behaviour \<Longrightarrow> this < length (m_nodes g)
     \<Longrightarrow> \<forall>q \<in> set rest. q < this
     \<Longrightarrow> ConcatenateNode_loop ops g source this rest offset out \<noteq> Inl undefined_behaviour"
proof (induction ops g source node and ops g source this rest offset out
    rule: compute_ConcatenateNode_loop.induct)
  case (1 ops g source node)
  note h = "1.prems"(1) and stk = "1.prems"(2) and src = "1.prems"(3) and lt = "1.prems"(4)
  from h lt have ok: "node_ok ops g node" by (simp add: heap_ok_def)
  show ?case
  proof (cases "m_nodes g ! node")
    case (InputNode m_index m_n_outputs)
    with lt src show ?thesis
      by (auto simp: compute.simps [of ops g source node] InputNode_compute_def
          split: sum.splits)
  next
    case (FeedForwardNode m_stack m_source)
    with ok have sp: "m_stack < length (m_stacks g)" and q: "m_source < node"
      by (simp_all add: node_ok_def)
    from q lt have "m_source < length (m_nodes g)" by simp
    from "1.IH"(1) [OF _ FeedForwardNode _ h stk src this] lt q
    have "compute ops g source m_source \<noteq> Inl undefined_behaviour" by simp
    with lt FeedForwardNode sp q stk show ?thesis
      by (auto simp: compute.simps [of ops g source node] split: sum.splits)
  next
    case (ConcatenateNode m_sources m_n_outputs)
    with ok have qs: "\<forall>q \<in> set m_sources. q < node"
      and n: "m_n_outputs
               = sum_list (map (\<lambda>q. n_outputs ops (m_stacks g) (m_nodes g ! q)) m_sources)
                   mod 2 ^ 64"
      by (simp_all add: node_ok_def)
    from "1.IH"(2) [OF _ ConcatenateNode h stk src lt qs] lt
    have loop: "ConcatenateNode_loop ops g source node m_sources 0
                  (replicate m_n_outputs None) \<noteq> Inl undefined_behaviour" by simp
    have "None \<notin> set out'"
      if "ConcatenateNode_loop ops g source node m_sources 0 (replicate m_n_outputs None)
            = Inr (offset', out')" for offset' out'
    proof -
      from ConcatenateNode_loop_Inr [of ops g source node m_sources "[]" m_n_outputs offset' out']
        that
      obtain vs where vs: "list_all2 (\<lambda>q v. compute ops g source q = Inr v
                   \<and> length v = n_outputs ops (m_stacks g) (m_nodes g ! q)) m_sources vs"
        and fit: "length (concat vs) \<le> m_n_outputs"
        and out': "out' = map Some (concat vs) @ replicate (m_n_outputs - length (concat vs)) None"
        by auto
      from vs have "map length vs
                      = map (\<lambda>q. n_outputs ops (m_stacks g) (m_nodes g ! q)) m_sources"
        by (induction rule: list_all2_induct) simp_all
      with n have "m_n_outputs = length (concat vs) mod 2 ^ 64" by (simp add: length_concat)
      then have "m_n_outputs \<le> length (concat vs)" by simp
      with fit have "length (concat vs) = m_n_outputs" by simp
      with out' show ?thesis by auto
    qed
    with lt ConcatenateNode loop show ?thesis
      by (auto simp: compute.simps [of ops g source node] split: sum.splits)
  qed
next
  case (2 ops g source this offset out)
  then show ?case by simp
next
  case (3 ops g source this node rest offset out)
  from "3.prems"(5) have q: "node < this" and rest: "\<forall>q \<in> set rest. q < this" by simp_all
  from q "3.prems"(4) have "node < length (m_nodes g)" by simp
  from "3.IH"(1) [OF _ "3.prems"(1,2,3) this] q
  have 1: "compute ops g source node \<noteq> Inl undefined_behaviour" by simp
  have 2: "ConcatenateNode_loop ops g source this rest (offset + length input)
             (write_segment out offset input) \<noteq> Inl undefined_behaviour"
    if "compute ops g source node = Inr input"
      and "length input = n_outputs ops (m_stacks g) (m_nodes g ! node)"
      and "offset + length input \<le> length out" for input
    using "3.IH"(2) [OF _ that(1) refl _ _ "3.prems"(1,2,3,4) rest] q that(2,3) by simp
  from q 1 2 show ?case
    by (auto simp: Let_def split: sum.splits)
qed

lemma Graph_compute_defined:
  assumes "Graph_ctor ops nodes layers = Inr g"
    and "\<forall>s v. Stack_compute ops s v \<noteq> Inl undefined_behaviour"
    and "\<forall>i. source i \<noteq> Inl undefined_behaviour"
  shows "Graph_compute ops g source node_number \<noteq> Inl undefined_behaviour"
    and "Graph_compute_back ops g source \<noteq> Inl undefined_behaviour"
  using compute_defined(1) [OF Graph_ctor_content(2) [OF assms(1)] assms(2,3)]
  by (auto simp: Graph_compute_def Graph_compute_back_def)

section \<open>The faults of a construction\<close>

lemma get_feedforward_node_faults:
  assumes "get_feedforward_node ops node layers st = Inl (e, st')"
    and "length (sources node) = 1 \<longrightarrow> map_of (node_map st) (sources node ! 0) \<noteq> None"
  shows "construction_fault ops e"
  using assms
  by (auto simp: get_feedforward_node_def Let_def construction_fault_def throw_cfg_def
      update_new' map_add_def split: if_splits option.splits sum.splits)

lemma build_faults:
  "shape_ok nodes st \<Longrightarrow> cycle_check_ok nodes cc
     \<Longrightarrow> build_node ops iii nodes layers st cc = Inl (e, st')
     \<Longrightarrow> construction_fault ops e"
  "shape_ok nodes st \<Longrightarrow> cycle_check_ok nodes cc
     \<Longrightarrow> build_sources ops srcs nodes layers st cc = Inl (e, st')
     \<Longrightarrow> construction_fault ops e"
proof (induction ops iii nodes layers st cc and ops srcs nodes layers st cc
    arbitrary: e st' and e st' rule: build_node_build_sources.induct)
  case (1 ops iii nodes layers st cc)
  note sh = "1.prems"(1) and cc = "1.prems"(2) and res = "1.prems"(3)
  show ?case
  proof (cases "map_of (node_map st) iii \<noteq> None \<or> length nodes \<le> iii
                  \<or> type (nodes ! iii) = INPUT \<or> iii \<in> cc")
    case True
    with res show ?thesis
      by (auto simp: build_node.simps Let_def construction_fault_def throw_cfg_def
          split: if_splits)
  next
    case False
    then have un: "map_of (node_map st) iii = None" and inrange: "\<not> length nodes \<le> iii"
      and ty: "type (nodes ! iii) \<noteq> INPUT" and notin: "iii \<notin> cc" by auto
    have cc': "cycle_check_ok nodes (insert iii cc)"
      using cc ty by (auto simp: cycle_check_ok_def)
    show ?thesis
    proof (cases "build_sources ops (sources (nodes ! iii)) nodes layers st (insert iii cc)")
      case (Inl x)
      with res un inrange ty notin have "x = (e, st')"
        by (subst (asm) build_node.simps) (simp add: Let_def)
      with "1.IH" [OF _ inrange refl ty notin sh cc'] Inl un show ?thesis by simp
    next
      case (Inr st1)
      note s = build_shape(2) [OF sh cc' Inr]
      have mapped: "length (sources (nodes ! iii)) = 1
              \<longrightarrow> map_of (node_map st1) (sources (nodes ! iii) ! 0) \<noteq> None"
      proof
        assume "length (sources (nodes ! iii)) = 1"
        then have "sources (nodes ! iii) ! 0 \<in> set (sources (nodes ! iii))"
          by (cases "sources (nodes ! iii)") auto
        with s show "map_of (node_map st1) (sources (nodes ! iii) ! 0) \<noteq> None" by blast
      qed
      from s have "\<forall>s \<in> set (sources (nodes ! iii)). map_of (node_map st1) s \<noteq> None"
        by blast
      from in_nodes_total [OF this] obtain ins where
        ins: "in_nodes (node_map st1) (sources (nodes ! iii)) = Some ins" ..
      from res un inrange ty notin Inr ins
      consider x where "get_feedforward_node ops (nodes ! iii) layers st1 = Inl (e, x)"
        | "e = NNConfigurationException ''unknown node type''"
        by (subst (asm) build_node.simps) (auto simp: Let_def split: if_splits sum.splits)
      then show ?thesis
      proof cases
        case 1
        from get_feedforward_node_faults [OF this mapped] show ?thesis .
      next
        case 2
        then show ?thesis by (simp add: construction_fault_def)
      qed
    qed
  qed
next
  case (2 ops nodes layers st cc)
  then show ?case by simp
next
  case (3 ops source_node rest nodes layers st cc)
  show ?case
  proof (cases "build_node ops source_node nodes layers st cc")
    case (Inl x)
    with "3.prems"(3) have "x = (e, st')" by simp
    with "3.IH"(1) [OF "3.prems"(1,2)] Inl show ?thesis by simp
  next
    case (Inr st1)
    from build_shape(1) [OF "3.prems"(1,2) Inr] have sh1: "shape_ok nodes st1" by simp
    from "3.prems"(3) Inr have "build_sources ops rest nodes layers st1 cc = Inl (e, st')"
      by simp
    from "3.IH"(2) [OF Inr sh1 "3.prems"(2) this] show ?thesis .
  qed
qed

lemma Graph_ctor_faults:
  assumes "Graph_ctor ops nodes layers = Inl (e, st)"
  shows "construction_fault ops e"
proof (cases "Graph_loop ops [0..<length nodes] nodes layers empty_Build")
  case (Inl x)
  with assms have "build_sources ops [0..<length nodes] nodes layers empty_Build {} = Inl (e, st)"
    by (simp add: Graph_ctor_def Graph_loop_build_sources)
  from build_faults(2) [OF shape_ok_empty cycle_check_ok_empty this] show ?thesis .
next
  case (Inr g)
  then have "Graph_ctor ops nodes layers = Inr g" by (simp add: Graph_ctor_Inr)
  with assms show ?thesis by simp
qed

section \<open>The state in which a construction fails\<close>

lemma get_feedforward_node_Inl_state:
  "get_feedforward_node ops node layers st = Inl (e, st') \<Longrightarrow> st' = st"
  by (auto simp: get_feedforward_node_def Let_def update_new' map_add_def
      split: if_splits option.splits sum.splits)

lemma build_fail_state:
  "shape_ok nodes st \<Longrightarrow> cycle_check_ok nodes cc \<Longrightarrow> content_ok ops nodes layers st
     \<Longrightarrow> build_node ops iii nodes layers st cc = Inl (e, st')
     \<Longrightarrow> shape_ok nodes st' \<and> content_ok ops nodes layers st'"
  "shape_ok nodes st \<Longrightarrow> cycle_check_ok nodes cc \<Longrightarrow> content_ok ops nodes layers st
     \<Longrightarrow> build_sources ops srcs nodes layers st cc = Inl (e, st')
     \<Longrightarrow> shape_ok nodes st' \<and> content_ok ops nodes layers st'"
proof (induction ops iii nodes layers st cc and ops srcs nodes layers st cc
    arbitrary: e st' and e st' rule: build_node_build_sources.induct)
  case (1 ops iii nodes layers st cc)
  note sh = "1.prems"(1) and cc = "1.prems"(2) and c = "1.prems"(3) and res = "1.prems"(4)
  show ?case
  proof (cases "map_of (node_map st) iii \<noteq> None \<or> length nodes \<le> iii
                  \<or> type (nodes ! iii) = INPUT \<or> iii \<in> cc")
    case True
    with res have "st' = st"
      by (auto simp: build_node.simps Let_def split: if_splits)
    with sh c show ?thesis by simp
  next
    case False
    then have un: "map_of (node_map st) iii = None" and inrange: "\<not> length nodes \<le> iii"
      and ty: "type (nodes ! iii) \<noteq> INPUT" and notin: "iii \<notin> cc" by auto
    have cc': "cycle_check_ok nodes (insert iii cc)"
      using cc ty by (auto simp: cycle_check_ok_def)
    show ?thesis
    proof (cases "build_sources ops (sources (nodes ! iii)) nodes layers st (insert iii cc)")
      case (Inl x)
      with res un inrange ty notin have "x = (e, st')"
        by (subst (asm) build_node.simps) (simp add: Let_def)
      with "1.IH" [OF _ inrange refl ty notin sh cc' c] Inl un show ?thesis by simp
    next
      case (Inr st1)
      from build_shape(2) [OF sh cc' Inr] have sh1: "shape_ok nodes st1" by simp
      from build_content(2) [OF sh cc' c Inr] have c1: "content_ok ops nodes layers st1" .
      from res un inrange ty notin Inr
      have "st' = st1 \<or> (\<exists>x. get_feedforward_node ops (nodes ! iii) layers st1 = Inl (e, x)
                               \<and> st' = x)"
        by (subst (asm) build_node.simps)
          (auto simp: Let_def split: if_splits sum.splits option.splits)
      then have "st' = st1" by (auto dest: get_feedforward_node_Inl_state)
      with sh1 c1 show ?thesis by simp
    qed
  qed
next
  case (2 ops nodes layers st cc)
  then show ?case by simp
next
  case (3 ops source_node rest nodes layers st cc)
  show ?case
  proof (cases "build_node ops source_node nodes layers st cc")
    case (Inl x)
    with "3.prems"(4) have "x = (e, st')" by simp
    with "3.IH"(1) [OF "3.prems"(1,2,3)] Inl show ?thesis by simp
  next
    case (Inr st1)
    from build_shape(1) [OF "3.prems"(1,2) Inr] have sh1: "shape_ok nodes st1" by simp
    from build_content(1) [OF "3.prems"(1,2,3) Inr]
    have c1: "content_ok ops nodes layers st1" .
    from "3.prems"(4) Inr have "build_sources ops rest nodes layers st1 cc = Inl (e, st')"
      by simp
    from "3.IH"(2) [OF Inr sh1 "3.prems"(2) c1 this] show ?thesis .
  qed
qed

lemma Graph_ctor_fail_state:
  assumes "Graph_ctor ops nodes layers = Inl (e, st)"
  shows "shape_ok nodes st" and "content_ok ops nodes layers st"
proof -
  have "Graph_loop ops [0..<length nodes] nodes layers empty_Build = Inl (e, st)"
  proof (cases "Graph_loop ops [0..<length nodes] nodes layers empty_Build")
    case (Inl x)
    with assms show ?thesis by (simp add: Graph_ctor_def)
  next
    case (Inr g)
    then have "Graph_ctor ops nodes layers = Inr g" by (simp add: Graph_ctor_Inr)
    with assms show ?thesis by simp
  qed
  then have "build_sources ops [0..<length nodes] nodes layers empty_Build {} = Inl (e, st)"
    by (simp add: Graph_loop_build_sources)
  from build_fail_state(2) [OF shape_ok_empty cycle_check_ok_empty content_ok_empty this]
  show "shape_ok nodes st" and "content_ok ops nodes layers st" by simp_all
qed

lemma cycle_member_unmapped:
  assumes sh: "shape_ok nodes st" and c: "content_ok ops nodes layers st"
    and ty: "type (nodes ! a) \<noteq> INPUT" "type (nodes ! b) \<noteq> INPUT"
    and src: "b \<in> set (sources (nodes ! a))" "a \<in> set (sources (nodes ! b))"
  shows "map_of (node_map st) a = None"
proof (rule ccontr)
  assume "map_of (node_map st) a \<noteq> None"
  then obtain p where p: "map_of (node_map st) a = Some p" by auto
  then have "(a, p) \<in> set (node_map st)" by (rule map_of_SomeD)
  with c have "built_from ops nodes layers st a p" by (auto simp: content_ok_def)
  from built_from_source_lt [OF this ty(1) src(1)] obtain q where
    q: "map_of (node_map st) b = Some q" and qp: "q < p" by blast
  from q have "(b, q) \<in> set (node_map st)" by (rule map_of_SomeD)
  with c have "built_from ops nodes layers st b q" by (auto simp: content_ok_def)
  from built_from_source_lt [OF this ty(2) src(2)] obtain p' where
    "map_of (node_map st) a = Some p'" and "p' < q" by blast
  with p qp show False by simp
qed

section \<open>The faults of a configuration that is valid\<close>

lemma get_feedforward_node_valid_fault:
  assumes "get_feedforward_node ops node layers st = Inl (e, st')"
    and "length (sources node) = 1" and "map_of (node_map st) (sources node ! 0) \<noteq> None"
    and "0 \<le> index node" and "nat (index node) < length layers"
  shows "stack_fault ops layers e"
  using assms
  by (auto simp: get_feedforward_node_def Let_def stack_fault_def update_new' map_add_def
      split: if_splits option.splits sum.splits)

lemma build_valid_faults:
  "shape_ok nodes st \<Longrightarrow> cycle_check_ok nodes cc \<Longrightarrow> valid_config nodes layers
     \<Longrightarrow> iii < length nodes
     \<Longrightarrow> acyclic (config_edges nodes) \<longrightarrow> (\<forall>c \<in> cc. (c, iii) \<in> (config_edges nodes)\<^sup>+)
     \<Longrightarrow> build_node ops iii nodes layers st cc = Inl (e, st')
     \<Longrightarrow> stack_fault ops layers e
         \<or> (e = NNConfigurationException ''found cycle in graph''
            \<and> \<not> acyclic (config_edges nodes))"
  "shape_ok nodes st \<Longrightarrow> cycle_check_ok nodes cc \<Longrightarrow> valid_config nodes layers
     \<Longrightarrow> \<forall>s \<in> set srcs. s < length nodes
     \<Longrightarrow> acyclic (config_edges nodes)
           \<longrightarrow> (\<forall>c \<in> cc. \<forall>s \<in> set srcs. (c, s) \<in> (config_edges nodes)\<^sup>+)
     \<Longrightarrow> build_sources ops srcs nodes layers st cc = Inl (e, st')
     \<Longrightarrow> stack_fault ops layers e
         \<or> (e = NNConfigurationException ''found cycle in graph''
            \<and> \<not> acyclic (config_edges nodes))"
proof (induction ops iii nodes layers st cc and ops srcs nodes layers st cc
    arbitrary: e st' and e st' rule: build_node_build_sources.induct)
  case (1 ops iii nodes layers st cc)
  note sh = "1.prems"(1) and cc = "1.prems"(2) and valid = "1.prems"(3)
    and inrange = "1.prems"(4) and anc = "1.prems"(5) and res = "1.prems"(6)
  from valid inrange have v: "case type (nodes ! iii) of
          INPUT \<Rightarrow> length (sources (nodes ! iii)) = 1 \<and> 0 \<le> index (nodes ! iii)
        | FEED_FORWARD \<Rightarrow>
            length (sources (nodes ! iii)) = 1
            \<and> (\<forall>s \<in> set (sources (nodes ! iii)). s < length nodes)
            \<and> 0 \<le> index (nodes ! iii) \<and> nat (index (nodes ! iii)) < length layers
        | CONCATENATE \<Rightarrow> (\<forall>s \<in> set (sources (nodes ! iii)). s < length nodes)
        | OTHER \<Rightarrow> False"
    by (simp add: valid_config_def)
  from res have un: "map_of (node_map st) iii = None"
    by (auto simp: build_node.simps split: if_splits)
  show ?case
  proof (cases "type (nodes ! iii) = INPUT")
    case True
    with res un inrange v show ?thesis
      by (auto simp: build_node.simps Let_def split: if_splits)
  next
    case ty: False
    show ?thesis
    proof (cases "iii \<in> cc")
      case True
      with res un inrange ty have e: "e = NNConfigurationException ''found cycle in graph''"
        by (auto simp: build_node.simps Let_def)
      have "\<not> acyclic (config_edges nodes)"
      proof
        assume ac: "acyclic (config_edges nodes)"
        with anc True have "(iii, iii) \<in> (config_edges nodes)\<^sup>+" by blast
        with ac show False by (simp add: acyclic_def)
      qed
      with e show ?thesis by simp
    next
      case notin: False
      have edge: "(iii, s) \<in> config_edges nodes" if "s \<in> set (sources (nodes ! iii))" for s
        using that inrange ty by (simp add: config_edges_def)
      have anc': "acyclic (config_edges nodes)
                    \<longrightarrow> (\<forall>c \<in> insert iii cc. \<forall>s \<in> set (sources (nodes ! iii)).
                           (c, s) \<in> (config_edges nodes)\<^sup>+)"
        using anc edge by (auto intro: trancl_into_trancl)
      have cc': "cycle_check_ok nodes (insert iii cc)"
        using cc ty by (auto simp: cycle_check_ok_def)
      have srcs: "\<forall>s \<in> set (sources (nodes ! iii)). s < length nodes"
        using v ty by (cases "type (nodes ! iii)") auto
      have inrange': "\<not> length nodes \<le> iii" using inrange by simp
      show ?thesis
      proof (cases "build_sources ops (sources (nodes ! iii)) nodes layers st (insert iii cc)")
        case (Inl x)
        with res un inrange ty notin have "x = (e, st')"
          by (subst (asm) build_node.simps) (simp add: Let_def)
        with "1.IH" [OF _ inrange' refl ty notin sh cc' valid srcs anc'] Inl un
        show ?thesis by simp
      next
        case (Inr st1)
        note s = build_shape(2) [OF sh cc' Inr]
        from s have "\<forall>s \<in> set (sources (nodes ! iii)). map_of (node_map st1) s \<noteq> None"
          by blast
        from in_nodes_total [OF this] obtain ins where
          ins: "in_nodes (node_map st1) (sources (nodes ! iii)) = Some ins" ..
        show ?thesis
        proof (cases "type (nodes ! iii)")
          case INPUT
          with ty show ?thesis by simp
        next
          case FEED_FORWARD
          with v have len: "length (sources (nodes ! iii)) = 1"
            and idx: "0 \<le> index (nodes ! iii)" "nat (index (nodes ! iii)) < length layers"
            by simp_all
          from len have "sources (nodes ! iii) ! 0 \<in> set (sources (nodes ! iii))"
            by (cases "sources (nodes ! iii)") auto
          with s have mapped: "map_of (node_map st1) (sources (nodes ! iii) ! 0) \<noteq> None"
            by blast
          from res un inrange ty notin Inr FEED_FORWARD obtain x where
            "get_feedforward_node ops (nodes ! iii) layers st1 = Inl (e, x)"
            by (subst (asm) build_node.simps) (auto simp: Let_def split: sum.splits)
          from get_feedforward_node_valid_fault [OF this len mapped idx] show ?thesis ..
        next
          case CONCATENATE
          with res un inrange ty notin Inr ins show ?thesis
            by (subst (asm) build_node.simps) (simp add: Let_def)
        next
          case OTHER
          with v show ?thesis by simp
        qed
      qed
    qed
  qed
next
  case (2 ops nodes layers st cc)
  then show ?case by simp
next
  case (3 ops source_node rest nodes layers st cc)
  from "3.prems"(4) have s1: "source_node < length nodes"
    and srest: "\<forall>s \<in> set rest. s < length nodes" by simp_all
  from "3.prems"(5) have a1: "acyclic (config_edges nodes)
           \<longrightarrow> (\<forall>c \<in> cc. (c, source_node) \<in> (config_edges nodes)\<^sup>+)"
    and arest: "acyclic (config_edges nodes)
           \<longrightarrow> (\<forall>c \<in> cc. \<forall>s \<in> set rest. (c, s) \<in> (config_edges nodes)\<^sup>+)"
    by simp_all
  show ?case
  proof (cases "build_node ops source_node nodes layers st cc")
    case (Inl x)
    with "3.prems"(6) have "x = (e, st')" by simp
    with "3.IH"(1) [OF "3.prems"(1,2,3) s1 a1] Inl show ?thesis by simp
  next
    case (Inr st1)
    from build_shape(1) [OF "3.prems"(1,2) Inr] have sh1: "shape_ok nodes st1" by simp
    from "3.prems"(6) Inr have "build_sources ops rest nodes layers st1 cc = Inl (e, st')"
      by simp
    from "3.IH"(2) [OF Inr sh1 "3.prems"(2,3) srest arest this] show ?thesis .
  qed
qed

lemma Graph_ctor_valid_faults:
  assumes "valid_config nodes layers" and "Graph_ctor ops nodes layers = Inl (e, st)"
  shows "stack_fault ops layers e
         \<or> (e = NNConfigurationException ''found cycle in graph''
            \<and> \<not> acyclic (config_edges nodes))"
proof -
  have "Graph_loop ops [0..<length nodes] nodes layers empty_Build = Inl (e, st)"
  proof (cases "Graph_loop ops [0..<length nodes] nodes layers empty_Build")
    case (Inl x)
    with assms(2) show ?thesis by (simp add: Graph_ctor_def)
  next
    case (Inr g)
    then have "Graph_ctor ops nodes layers = Inr g" by (simp add: Graph_ctor_Inr)
    with assms(2) show ?thesis by simp
  qed
  then have "build_sources ops [0..<length nodes] nodes layers empty_Build {} = Inl (e, st)"
    by (simp add: Graph_loop_build_sources)
  from build_valid_faults(2) [OF shape_ok_empty cycle_check_ok_empty assms(1) _ _ this]
  show ?thesis by simp
qed

section \<open>Input nodes\<close>

text \<open>
  Claim C5, as amended. For every Input node and every source whose slot holds a
  non-empty vector, \<open>InputNode_compute\<close> fails with an evaluation error if and only if the
  length of that vector differs from the declared width, the message then being
  "Found vector of length X, expected Y"; when the lengths are equal it returns the
  vector unchanged.
\<close>

theorem InputNode_compute_width:
  assumes "source m_index = Inr output" and "output \<noteq> []"
  shows "((\<exists>msg. InputNode_compute m_index m_n_outputs source
                  = Inl (NNEvaluationException msg))
            \<longleftrightarrow> length output \<noteq> m_n_outputs)
       \<and> (length output \<noteq> m_n_outputs \<longrightarrow>
            InputNode_compute m_index m_n_outputs source =
              Inl (NNEvaluationException
                     (''Found vector of length '' @ to_string (length output)
                       @ '', expected '' @ to_string m_n_outputs)))
       \<and> (length output = m_n_outputs \<longrightarrow>
            InputNode_compute m_index m_n_outputs source = Inr output)"
  using assms by (auto simp: InputNode_compute_def)

theorem InputNode_compute_width_witness:
  "VectorSource_at [[1, 2, 3 :: int]] 0 = Inr [1, 2, 3] \<and> [1, 2, 3 :: int] \<noteq> []
   \<and> InputNode_compute 0 2 (VectorSource_at [[1, 2, 3 :: int]])
       = Inl (NNEvaluationException ''Found vector of length 3, expected 2'')
   \<and> InputNode_compute 0 3 (VectorSource_at [[1, 2, 3 :: int]]) = Inr [1, 2, 3]"
  using InputNode_compute_width [of "VectorSource_at [[1, 2, 3 :: int]]" 0 "[1, 2, 3]" 2]
    InputNode_compute_width [of "VectorSource_at [[1, 2, 3 :: int]]" 0 "[1, 2, 3]" 3]
  by (simp add: VectorSource_at_def to_string_digit digit_char_def)

text \<open>
  Claim C5 as stated fails where the slot holds the empty vector: an Input node of
  declared width 0 does not return the matching empty vector, and one of declared
  width 2 does not fail with an evaluation error; both stop at the assertion.
\<close>

theorem InputNode_compute_empty_counterexample:
  "VectorSource_at [[] :: int list] 0 = Inr []
   \<and> length ([] :: int list) = 0
   \<and> InputNode_compute 0 0 (VectorSource_at [[] :: int list]) = Inl assertion_failed
   \<and> InputNode_compute 0 2 (VectorSource_at [[] :: int list]) = Inl assertion_failed"
  by (simp add: VectorSource_at_def InputNode_compute_def)

text \<open>
  Claim C10. \<open>InputNode_compute\<close> asserts that the fetched vector is non-empty before it
  compares widths. When the source returns a vector of positive length, the assertion
  holds and the only failure is the width-mismatch evaluation error; when the source
  returns the empty vector the assertion fails, whatever the declared width, so an Input
  node of declared width 0 never returns the empty vector.
\<close>

theorem InputNode_compute_assert:
  "(source m_index = Inr output \<and> length output > 0 \<longrightarrow>
      InputNode_compute m_index m_n_outputs source =
        (if length output \<noteq> m_n_outputs
         then Inl (NNEvaluationException
                     (''Found vector of length '' @ to_string (length output)
                       @ '', expected '' @ to_string m_n_outputs))
         else Inr output))
   \<and> (source m_index = Inr [] \<longrightarrow>
        InputNode_compute m_index m_n_outputs source = Inl assertion_failed)
   \<and> InputNode_compute m_index 0 source \<noteq> Inr []"
  by (auto simp: InputNode_compute_def split: sum.splits)

theorem InputNode_compute_assert_witness:
  "VectorSource_at [[5, 7 :: int]] 0 = Inr [5, 7] \<and> length [5, 7 :: int] > 0
   \<and> InputNode_compute 0 2 (VectorSource_at [[5, 7 :: int]]) = Inr [5, 7]
   \<and> VectorSource_at [[] :: int list] 0 = Inr []
   \<and> InputNode_compute 0 0 (VectorSource_at [[] :: int list]) = Inl assertion_failed"
  using InputNode_compute_assert [of "VectorSource_at [[5, 7 :: int]]" 0 "[5, 7]" 2]
    InputNode_compute_assert [of "VectorSource_at [[] :: int list]" 0 "[]" 0]
  by (simp add: VectorSource_at_def)

section \<open>The evaluation entry points\<close>

text \<open>
  Claim C7, as amended. For every Graph constructed from \<open>N\<close> configuration entries,
  which then has \<open>N\<close> nodes, the indexed compute raises the evaluation error
  "Graph: no node at id" whenever the id is at least \<open>N\<close>; for an id below \<open>N\<close> the range
  check passes and the result is that of the addressed node's compute, which may itself
  be an evaluation error. A call leaves the Graph as it was: the results of the calls
  that follow it are those that would be obtained without it.
\<close>

theorem Graph_compute_range:
  assumes "Graph_ctor ops nodes layers = Inr g"
  shows "length (m_nodes g) = length nodes
       \<and> (node_id \<ge> length nodes \<longrightarrow>
            Graph_compute ops g source node_id
              = Inl (NNEvaluationException (''Graph: no node at '' @ to_string node_id)))
       \<and> (node_id < length nodes \<longrightarrow>
            Graph_compute ops g source node_id = compute ops g source node_id)
       \<and> Graph_calls ops g ((source, node_id) # calls)
            = Graph_compute ops g source node_id # Graph_calls ops g calls"
  using Graph_ctor_shape(3) [OF assms]
  by (simp add: Graph_compute_def Graph_compute_call_def)

theorem Graph_compute_range_witness:
  "Graph_ctor reversing_ops single_input ([] :: unit list)
     = Inr \<lparr>m_nodes = [InputNode 0 2], m_stacks = [], node_map = [(0, 0)], stack_map = []\<rparr>
   \<and> Graph_calls reversing_ops
        \<lparr>m_nodes = [InputNode 0 2], m_stacks = ([] :: nat list),
          node_map = [(0, 0)], stack_map = []\<rparr>
        [(DummySource_at [2], 1), (DummySource_at [3], 0), (DummySource_at [2], 0)]
       = [Inl (NNEvaluationException ''Graph: no node at 1''),
          Inl (NNEvaluationException ''Found vector of length 3, expected 2''),
          Inr [0, 1 :: int]]"
  using Graph_compute_range [OF Graph_ctor_single_input,
      where ops = "reversing_ops :: (unit, nat, int) Stack_ops" and node_id = 1
        and source = "DummySource_at [2] :: int ISource"
        and calls = "[(DummySource_at [3], 0), (DummySource_at [2], 0)]"]
    Graph_compute_range [OF Graph_ctor_single_input,
      where ops = "reversing_ops :: (unit, nat, int) Stack_ops" and node_id = 0
        and source = "DummySource_at [3] :: int ISource"
        and calls = "[(DummySource_at [2], 0)]"]
    Graph_compute_range [OF Graph_ctor_single_input,
      where ops = "reversing_ops :: (unit, nat, int) Stack_ops" and node_id = 0
        and source = "DummySource_at [2] :: int ISource" and calls = "[]"]
  by (simp add: Graph_ctor_single_input Graph_compute_def Graph_compute_call_def
      compute.simps InputNode_compute_def
      DummySource_at_def to_string_digit digit_char_def upt_rec)

text \<open>
  Claim C7 as stated fails in its "only if" direction: on a Graph with one Input node
  of declared width 2, the id 0 is in range and the call raises an evaluation error, for
  a source whose slot 0 holds three elements.
\<close>

theorem Graph_compute_range_counterexample:
  "Graph_ctor reversing_ops single_input ([] :: unit list)
     = Inr \<lparr>m_nodes = [InputNode 0 2], m_stacks = [], node_map = [(0, 0)], stack_map = []\<rparr>
   \<and> \<not> (0 :: nat) \<ge> length single_input
   \<and> Graph_compute reversing_ops
        \<lparr>m_nodes = [InputNode 0 2], m_stacks = ([] :: nat list),
          node_map = [(0, 0)], stack_map = []\<rparr>
        (DummySource_at [3] :: int ISource) 0
       = Inl (NNEvaluationException ''Found vector of length 3, expected 2'')"
  by (simp add: Graph_ctor_single_input Graph_compute_def compute.simps
      InputNode_compute_def DummySource_at_def to_string_digit digit_char_def upt_rec)



section \<open>Cycles\<close>

text \<open>
  Claim C2, as amended. For every configuration in which an entry \<open>a\<close> has the entry \<open>b\<close>
  among its sources and \<open>b\<close> has \<open>a\<close> among its sources, both FEED_FORWARD or CONCATENATE,
  construction fails with a configuration exception (of the builder or of the
  constructor of Stack), and it is raised before a node has been constructed for \<open>a\<close> or
  for \<open>b\<close>: neither is in \<open>node_map\<close>, which holds every node of \<open>m_nodes\<close>. In a
  configuration with no fault of arity, range or kind the exception is the cycle fault
  or one that the constructor of Stack throws. When \<open>a\<close> or \<open>b\<close> is the first entry and
  each is the first source of the other, it is the cycle fault and no node at all has
  been constructed.
\<close>

theorem mutual_cycle_fails:
  assumes "a < length nodes" and "b < length nodes"
    and "type (nodes ! a) = FEED_FORWARD \<or> type (nodes ! a) = CONCATENATE"
    and "type (nodes ! b) = FEED_FORWARD \<or> type (nodes ! b) = CONCATENATE"
    and "b \<in> set (sources (nodes ! a))" and "a \<in> set (sources (nodes ! b))"
  shows "\<exists>e st. Graph_ctor ops nodes layers = Inl (e, st) \<and> construction_fault ops e
           \<and> shape_ok nodes st
           \<and> map_of (node_map st) a = None \<and> map_of (node_map st) b = None
           \<and> (valid_config nodes layers
                \<longrightarrow> e = NNConfigurationException ''found cycle in graph''
                    \<or> stack_fault ops layers e)
           \<and> ((a = 0 \<or> b = 0)
                \<and> (\<exists>ra rb. sources (nodes ! a) = b # ra \<and> sources (nodes ! b) = a # rb)
                \<longrightarrow> e = NNConfigurationException ''found cycle in graph''
                    \<and> st = \<lparr>m_nodes = [], m_stacks = [], node_map = [], stack_map = []\<rparr>)"
proof -
  from assms(3,4) have ty: "type (nodes ! a) \<noteq> INPUT" "type (nodes ! b) \<noteq> INPUT" by auto
  have "Graph_ctor ops nodes layers \<noteq> Inr g" for g
    using mutual_cycle_no_Graph [OF assms(1,2) ty assms(5,6)] .
  then obtain e st where res: "Graph_ctor ops nodes layers = Inl (e, st)"
    by (cases "Graph_ctor ops nodes layers") auto
  note sh = Graph_ctor_fail_state(1) [OF res] and c = Graph_ctor_fail_state(2) [OF res]
  have a: "map_of (node_map st) a = None"
    using cycle_member_unmapped [OF sh c ty assms(5,6)] .
  have b: "map_of (node_map st) b = None"
    using cycle_member_unmapped [OF sh c ty(2,1) assms(6,5)] .
  have v: "e = NNConfigurationException ''found cycle in graph'' \<or> stack_fault ops layers e"
    if "valid_config nodes layers"
    using Graph_ctor_valid_faults [OF that res] by blast
  have first: "e = NNConfigurationException ''found cycle in graph''
                \<and> st = \<lparr>m_nodes = [], m_stacks = [], node_map = [], stack_map = []\<rparr>"
    if z: "a = 0 \<or> b = 0" and src: "sources (nodes ! a) = b # ra" "sources (nodes ! b) = a # rb"
    for ra rb
  proof -
    from z have "Graph_ctor ops nodes layers
           = Inl (NNConfigurationException ''found cycle in graph'', empty_Build)"
    proof
      assume "a = 0"
      with cycle_first [OF assms(2), of ra rb ops layers] ty src show ?thesis by simp
    next
      assume "b = 0"
      with cycle_first [OF assms(1), of rb ra ops layers] ty src show ?thesis by simp
    qed
    with res show ?thesis by (simp add: empty_Build_def)
  qed
  from res Graph_ctor_faults [OF res] sh a b v first show ?thesis by blast
qed

theorem mutual_cycle_fails_witness:
  "(0 :: nat) < length mutual_cycle \<and> 1 < length mutual_cycle
   \<and> type (mutual_cycle ! 0) = FEED_FORWARD \<and> type (mutual_cycle ! 1) = FEED_FORWARD
   \<and> 1 \<in> set (sources (mutual_cycle ! 0)) \<and> 0 \<in> set (sources (mutual_cycle ! 1))
   \<and> valid_config mutual_cycle [()]
   \<and> sources (mutual_cycle ! 0) = 1 # [] \<and> sources (mutual_cycle ! 1) = 0 # []
   \<and> Graph_ctor (reversing_ops :: (unit, nat, int) Stack_ops) mutual_cycle [()]
       = Inl (NNConfigurationException ''found cycle in graph'',
              \<lparr>m_nodes = [], m_stacks = [], node_map = [], stack_map = []\<rparr>)"
proof -
  have h: "(0 :: nat) < length mutual_cycle" "1 < length mutual_cycle"
    "type (mutual_cycle ! 0) = FEED_FORWARD \<or> type (mutual_cycle ! 0) = CONCATENATE"
    "type (mutual_cycle ! 1) = FEED_FORWARD \<or> type (mutual_cycle ! 1) = CONCATENATE"
    "1 \<in> set (sources (mutual_cycle ! 0))" "0 \<in> set (sources (mutual_cycle ! 1))"
    by (simp_all add: mutual_cycle_def)
  have src: "sources (mutual_cycle ! 0) = 1 # []" "sources (mutual_cycle ! 1) = 0 # []"
    by (simp_all add: mutual_cycle_def)
  have valid: "valid_config mutual_cycle [()]"
    by (auto simp: valid_config_def mutual_cycle_def less_Suc_eq eval_nat_numeral)
  from mutual_cycle_fails [OF h, of "reversing_ops :: (unit, nat, int) Stack_ops" "[()]"] src
  have "Graph_ctor (reversing_ops :: (unit, nat, int) Stack_ops) mutual_cycle [()]
       = Inl (NNConfigurationException ''found cycle in graph'',
              \<lparr>m_nodes = [], m_stacks = [], node_map = [], stack_map = []\<rparr>)"
    by auto
  with h src valid show ?thesis by (simp add: mutual_cycle_def)
qed

text \<open>
  Claim C2 as stated fails in both of its parts. On \<open>input_then_cycle\<close>, where the
  entries 1 and 2 form the cycle, the Input node of entry 0 has been constructed when
  the cycle fault is raised. On \<open>faulty_input_then_cycle\<close>, with the same cycle, the
  fault is the arity fault of entry 0 and not the cycle fault. On
  \<open>feed_forward_then_cycle\<close>, which has no fault of arity, range or kind, the fault is
  the one that the constructor of Stack throws for entry 1, for a layer that requires
  the input width 3.
\<close>

theorem input_then_cycle_counterexample:
  "type (input_then_cycle ! 1) = FEED_FORWARD \<and> sources (input_then_cycle ! 1) = [2]
   \<and> type (input_then_cycle ! 2) = FEED_FORWARD \<and> sources (input_then_cycle ! 2) = [1]
   \<and> Graph_ctor (reversing_ops :: (unit, nat, int) Stack_ops) input_then_cycle [()]
       = Inl (NNConfigurationException ''found cycle in graph'',
              \<lparr>m_nodes = [InputNode 0 2], m_stacks = [],
                node_map = [(0, 0)], stack_map = []\<rparr>)
   \<and> type (faulty_input_then_cycle ! 1) = FEED_FORWARD
   \<and> sources (faulty_input_then_cycle ! 1) = [2]
   \<and> type (faulty_input_then_cycle ! 2) = FEED_FORWARD
   \<and> sources (faulty_input_then_cycle ! 2) = [1]
   \<and> Graph_ctor (reversing_ops :: (unit, nat, int) Stack_ops) faulty_input_then_cycle [()]
       = Inl (NNConfigurationException ''input node needs need one source, got 0'',
              \<lparr>m_nodes = [], m_stacks = [], node_map = [], stack_map = []\<rparr>)
   \<and> type (feed_forward_then_cycle ! 2) = FEED_FORWARD
   \<and> sources (feed_forward_then_cycle ! 2) = [3]
   \<and> type (feed_forward_then_cycle ! 3) = FEED_FORWARD
   \<and> sources (feed_forward_then_cycle ! 3) = [2]
   \<and> Graph_ctor (checking_ops :: (nat, nat, int) Stack_ops) feed_forward_then_cycle [3]
       = Inl (NNConfigurationException ''width mismatch'',
              \<lparr>m_nodes = [InputNode 0 2], m_stacks = [],
                node_map = [(0, 0)], stack_map = []\<rparr>)"
  by (simp add: input_then_cycle_def faulty_input_then_cycle_def feed_forward_then_cycle_def
      Graph_ctor_def empty_Build_def build_node.simps push_node_def upt_rec throw_cfg_def
      to_string_digit digit_char_def get_feedforward_node_def checking_ops_def)



section \<open>Shared stacks\<close>

text \<open>
  Claim C3. After a successful construction the Graph owns exactly one Stack for each
  distinct layer number that a FEED_FORWARD entry names, made from the layer
  configuration of that number; the node built from a FEED_FORWARD entry holds the
  pointer that \<open>stack_map\<close> gives for its layer number, so the nodes of two entries with
  the same layer number hold the same Stack; and no layer number has two stacks.
\<close>

theorem stage_sharing:
  assumes "Graph_ctor ops nodes layers = Inr g"
  shows "length (m_stacks g) = length (referenced_layers nodes)
       \<and> (\<forall>k < length nodes. type (nodes ! k) = FEED_FORWARD \<longrightarrow>
            (\<exists>p sp q. map_of (node_map g) k = Some p
               \<and> m_nodes g ! p = FeedForwardNode sp q
               \<and> map_of (stack_map g) (nat (index (nodes ! k))) = Some sp
               \<and> sp < length (m_stacks g)
               \<and> (\<exists>n_inputs. Stack_new ops n_inputs [layers ! nat (index (nodes ! k))]
                                = Inr (m_stacks g ! sp))))
       \<and> (\<forall>l sp sp'. (l, sp) \<in> set (stack_map g) \<and> (l, sp') \<in> set (stack_map g)
            \<longrightarrow> sp = sp')"
proof (intro conjI allI impI)
  note sh = Graph_ctor_shape(1) [OF assms]
  note c = Graph_ctor_content(1) [OF assms]
  have "distinct (referenced_layers nodes)" by (simp add: referenced_layers_def)
  then have "card (set (referenced_layers nodes)) = length (referenced_layers nodes)"
    by (rule distinct_card)
  then show "length (m_stacks g) = length (referenced_layers nodes)"
    using shape_ok_stack_lengths [OF sh] Graph_ctor_stack_keys [OF assms] by simp
  show "\<exists>p sp q. map_of (node_map g) k = Some p
               \<and> m_nodes g ! p = FeedForwardNode sp q
               \<and> map_of (stack_map g) (nat (index (nodes ! k))) = Some sp
               \<and> sp < length (m_stacks g)
               \<and> (\<exists>n_inputs. Stack_new ops n_inputs [layers ! nat (index (nodes ! k))]
                                = Inr (m_stacks g ! sp))"
    if k: "k < length nodes" and ty: "type (nodes ! k) = FEED_FORWARD" for k
  proof -
    from k Graph_ctor_shape(2) [OF assms] have "k \<in> fst ` set (node_map g)" by simp
    then obtain p where kp: "(k, p) \<in> set (node_map g)" by auto
    with c have "built_from ops nodes layers g k p" by (auto simp: content_ok_def)
    with ty obtain sp q where
      sp: "map_of (stack_map g) (nat (index (nodes ! k))) = Some sp"
      and p: "m_nodes g ! p = FeedForwardNode sp q"
      by (auto simp: built_from_def)
    from sp have in_map: "(nat (index (nodes ! k)), sp) \<in> set (stack_map g)"
      by (rule map_of_SomeD)
    with c have "\<exists>n_inputs. Stack_new ops n_inputs [layers ! nat (index (nodes ! k))]
                                = Inr (m_stacks g ! sp)"
      by (auto simp: content_ok_def)
    with shape_ok_map_of [OF sh kp] p sp shape_ok_stack_pointer [OF sh in_map]
    show ?thesis by blast
  qed
  show "sp = sp'"
    if "(l, sp) \<in> set (stack_map g) \<and> (l, sp') \<in> set (stack_map g)" for l sp sp'
  proof -
    from sh have "distinct (map fst (stack_map g))" by (simp add: shape_ok_def)
    with that show ?thesis by (meson eq_key_imp_eq_value)
  qed
qed

theorem stage_sharing_witness:
  "Graph_ctor reversing_ops dummy_config [()] = Inr dummy_graph
   \<and> type (dummy_config ! 3) = FEED_FORWARD \<and> type (dummy_config ! 4) = FEED_FORWARD
   \<and> index (dummy_config ! 3) = index (dummy_config ! 4)
   \<and> length (m_stacks dummy_graph) = 1
   \<and> m_nodes dummy_graph ! 3 = FeedForwardNode 0 2
   \<and> m_nodes dummy_graph ! 4 = FeedForwardNode 0 3"
proof (intro conjI)
  show "Graph_ctor reversing_ops dummy_config [()] = Inr dummy_graph"
    by (rule Graph_ctor_dummy_config)
  from stage_sharing [OF Graph_ctor_dummy_config [where layer = "()"]]
  have "length (m_stacks dummy_graph) = length (referenced_layers dummy_config)"
    by (rule conjunct1)
  then show "length (m_stacks dummy_graph) = 1"
    by (simp add: referenced_layers_def dummy_config_def)
qed (simp_all add: dummy_config_def dummy_graph_def)

section \<open>Zero-width Concatenate nodes\<close>

text \<open>
  Claim C9, evaluated on the configuration \<open>empty_concatenate\<close>. Construction succeeds
  with no arity fault and the Concatenate node has declared width 0, but its compute
  stops at the assertion \<^verbatim>\<open>assert(offset = m_n_outputs)\<close> instead of returning the
  zero-length vector.
\<close>

theorem empty_concatenate_aborts:
  "Graph_ctor ops empty_concatenate layers
     = Inr \<lparr>m_nodes = [ConcatenateNode [] 0], m_stacks = [],
            node_map = [(0, 0)], stack_map = []\<rparr>
   \<and> n_outputs ops [] (ConcatenateNode [] 0) = 0
   \<and> Graph_compute ops
        \<lparr>m_nodes = [ConcatenateNode [] 0], m_stacks = [],
          node_map = [(0, 0)], stack_map = []\<rparr> source 0 = Inl assertion_failed"
  by (simp add: Graph_ctor_def empty_concatenate_def empty_Build_def build_node.simps
      push_node_def ConcatenateNode_new_def Graph_compute_def compute.simps)

text \<open>
  Claim C4, evaluated on a Concatenate node constructed over no upstream node: all of
  its upstream computations succeed, there being none, and the concatenation of their
  results is the empty vector, but \<open>compute\<close> stops at the same assertion. For a positive
  declared width that is the sum of the upstream widths, the claim holds
  (\<open>ConcatenateNode_compute_concat\<close>).
\<close>

theorem ConcatenateNode_zero_width_aborts:
  "ConcatenateNode_new ops \<lparr>m_nodes = [], m_stacks = []\<rparr> [] = ConcatenateNode [] 0
   \<and> compute ops \<lparr>m_nodes = [ConcatenateNode [] 0], m_stacks = []\<rparr> source 0
       = Inl assertion_failed"
  by (simp add: ConcatenateNode_new_def compute.simps)

section \<open>Addressing nodes by position\<close>

text \<open>
  Claim C1, evaluated on the configuration \<open>forward_reference\<close>. Entry 0 is a
  FEED_FORWARD node whose source, entry 1, is an INPUT node. The Input node is
  constructed first, so it is the node at position 0 of \<open>m_nodes\<close>: the indexed compute
  with id 0 evaluates the node built from entry 1, and with id 1 the node built from
  entry 0. The Graph does have one node for each entry (\<open>Graph_ctor_shape\<close>), and the
  position of a node is the position of its entry when every source is an earlier
  entry (\<open>Graph_loop_dependencies_first\<close>).
\<close>

theorem forward_reference_misaddressed:
  "Graph_ctor reversing_ops forward_reference [layer]
     = Inr \<lparr>m_nodes = [InputNode 0 2, FeedForwardNode 0 0], m_stacks = [2],
            node_map = [(1, 0), (0, 1)], stack_map = [(0, 0)]\<rparr>
   \<and> Graph_compute reversing_ops
        \<lparr>m_nodes = [InputNode 0 2, FeedForwardNode 0 0], m_stacks = [2],
          node_map = [(1, 0), (0, 1)], stack_map = [(0, 0)]\<rparr>
        (DummySource_at [2]) 0 = Inr [0, 1 :: int]
   \<and> Graph_compute reversing_ops
        \<lparr>m_nodes = [InputNode 0 2, FeedForwardNode 0 0], m_stacks = [2],
          node_map = [(1, 0), (0, 1)], stack_map = [(0, 0)]\<rparr>
        (DummySource_at [2]) 1 = Inr [1, 0 :: int]"
  by (simp add: Graph_ctor_def forward_reference_def empty_Build_def build_node.simps
      push_node_def get_feedforward_node_def reversing_ops_def Graph_compute_def
      compute.simps InputNode_compute_def DummySource_at_def upt_rec)

end
